theory Spec2Isabelle
  imports Complex_Main "HOL-Library.Extended_Nat" "HOL-Library.Multiset"
begin

section \<open>Password generator: the generation core of password-generator.js\<close>

text \<open>
  The development embeds the generation functions of \<^verbatim>\<open>password-generator.js\<close>
  (\<^verbatim>\<open>generatePasswords\<close>, \<^verbatim>\<open>validateConstraints\<close>, \<^verbatim>\<open>secureRandom\<close>,
  \<^verbatim>\<open>filterSimilarChars\<close>, \<^verbatim>\<open>generateSinglePassword\<close>,
  \<^verbatim>\<open>generateNoDuplicatePassword\<close>, \<^verbatim>\<open>getValidChar\<close>, \<^verbatim>\<open>isValidChar\<close>).

  Modelling decisions:
  \<^item> A JavaScript string is a \<open>string\<close>; a character is one \<open>char\<close>. The model covers
    alphabets of single-code-unit characters (the built-in categories are ASCII).
  \<^item> The numbers \<open>length\<close> and \<open>amount\<close> come from \<^verbatim>\<open>parseInt\<close> and are integers of
    either sign: they are \<open>int\<close>. The field \<^verbatim>\<open>settings.length\<close> is \<open>lengthS\<close>, a parameter
    \<^verbatim>\<open>length\<close> is \<open>len\<close>.
  \<^item> The random source is a sequence \<open>rs :: nat \<Rightarrow> nat\<close> of raw draws together with the
    number \<open>k\<close> of draws consumed so far; every function that draws returns the new \<open>k\<close>.
  \<^item> A thrown \<^verbatim>\<open>Error\<close> is a value of type \<open>error\<close>; one constructor per message.
  \<^item> A JavaScript \<^verbatim>\<open>Set\<close> is a duplicate-free list in insertion order.
\<close>

subsection \<open>JavaScript values that occur as characters\<close>

datatype jsval = Null | Undefined | Chr char

text \<open>\<^verbatim>\<open>x && ...\<close>: \<^verbatim>\<open>null\<close> and \<^verbatim>\<open>undefined\<close> are falsy, a one-character string is truthy.\<close>

fun truthy :: "jsval \<Rightarrow> bool" where
  "truthy Null = False"
| "truthy Undefined = False"
| "truthy (Chr c) = True"

text \<open>\<^verbatim>\<open>x + str\<close>: conversion of the left operand of a string concatenation.\<close>

fun toStr :: "jsval \<Rightarrow> string" where
  "toStr Null = ''null''"
| "toStr Undefined = ''undefined''"
| "toStr (Chr c) = [c]"

text \<open>\<^verbatim>\<open>Array.prototype.join\<close> renders \<^verbatim>\<open>null\<close>, \<^verbatim>\<open>undefined\<close> and holes as the empty string.\<close>

fun joinElem :: "jsval \<Rightarrow> string" where
  "joinElem Null = []"
| "joinElem Undefined = []"
| "joinElem (Chr c) = [c]"

definition join :: "jsval list \<Rightarrow> string" where
  "join arr = concat (map joinElem arr)"

text \<open>\<^verbatim>\<open>s[i]\<close> on a string: \<^verbatim>\<open>undefined\<close> out of range.\<close>

definition str_at :: "string \<Rightarrow> nat \<Rightarrow> jsval" where
  "str_at s i = (if i < length s then Chr (s ! i) else Undefined)"

text \<open>\<^verbatim>\<open>a[i]\<close> on an array: \<^verbatim>\<open>undefined\<close> out of range (and for a hole).\<close>

definition arr_at :: "jsval list \<Rightarrow> nat \<Rightarrow> jsval" where
  "arr_at a i = (if i < length a then a ! i else Undefined)"

text \<open>\<^verbatim>\<open>a[i] = v\<close> on an array: an index past the end extends the array, leaving holes.\<close>

definition arr_set :: "jsval list \<Rightarrow> nat \<Rightarrow> jsval \<Rightarrow> jsval list" where
  "arr_set a i v =
     (if i < length a then a[i := v] else a @ replicate (i - length a) Undefined @ [v])"

text \<open>\<^verbatim>\<open>a.slice(0, e)\<close>: a negative end counts from the end of the array.\<close>

definition slice0 :: "'a list \<Rightarrow> int \<Rightarrow> 'a list" where
  "slice0 a e = (if e < 0 then take (nat (int (length a) + e)) a else take (nat e) a)"

text \<open>\<^verbatim>\<open>c.charCodeAt(0)\<close>.\<close>

definition charCode :: "char \<Rightarrow> int" where
  "charCode c = of_char c"

subsection \<open>Sets\<close>

definition set_has :: "'a list \<Rightarrow> 'a \<Rightarrow> bool" where
  "set_has S x = (x \<in> set S)"

definition set_add :: "'a list \<Rightarrow> 'a \<Rightarrow> 'a list" where
  "set_add S x = (if x \<in> set S then S else S @ [x])"

definition set_size :: "'a list \<Rightarrow> nat" where
  "set_size S = length S"

text \<open>\<^verbatim>\<open>new Set([...str])\<close>.\<close>

definition newSet :: "string \<Rightarrow> jsval list" where
  "newSet str = fold (\<lambda>c S. set_add S (Chr c)) str []"

subsection \<open>Errors\<close>

datatype error =
    EmptyCharsetError
  | EmptyFirstCharPoolError
  | NotEnoughUniqueCharsError nat int
  | FirstPositionEmptyError
  | SimilarEmptyCharsetError
  | SimilarEmptyFirstCharPoolError
  | StartCharExhaustionError
  | CharacterExhaustionError nat
  | RangeError
  | TypeError

text \<open>
  \<^item> \<open>EmptyCharsetError\<close>: "Select at least one character type." (\<^verbatim>\<open>generatePasswords\<close>)
  \<^item> \<open>EmptyFirstCharPoolError\<close>: "No valid starting characters available. Please adjust
    the options." (\<^verbatim>\<open>generatePasswords\<close>)
  \<^item> \<open>NotEnoughUniqueCharsError available required\<close>: "Not enough unique characters
    (available) for the requested password length (required) with no duplicates."
  \<^item> \<open>FirstPositionEmptyError\<close>: "No valid characters available for the first position."
    (\<^verbatim>\<open>validateConstraints\<close>)
  \<^item> \<open>SimilarEmptyCharsetError\<close>: "No characters available after removing similar
    characters."
  \<^item> \<open>SimilarEmptyFirstCharPoolError\<close>: "No valid starting characters available after
    removing similar characters."
  \<^item> \<open>StartCharExhaustionError\<close>: "Failed to generate a valid starting character after
    multiple attempts."
  \<^item> \<open>CharacterExhaustionError p\<close>: "Failed to generate character at position p."
  \<^item> \<open>RangeError\<close>: \<^verbatim>\<open>new Array(length)\<close> with an invalid length.
  \<^item> \<open>TypeError\<close>: \<^verbatim>\<open>charCodeAt\<close> called on a value that is not a string.
\<close>

subsection \<open>Settings and alphabets\<close>

record settings =
  lengthS :: int
  amount :: int
  includeNumbers :: bool
  includeLowercase :: bool
  includeUppercase :: bool
  includeSymbols :: bool
  customSymbols :: string
  noStartNumber :: bool
  noStartSymbol :: bool
  noSimilar :: bool
  noDuplicate :: bool
  noSequential :: bool

definition numbersSet :: string where
  "numbersSet = ''0123456789''"

definition lowercaseSet :: string where
  "lowercaseSet = ''abcdefghijklmnopqrstuvwxyz''"

definition uppercaseSet :: string where
  "uppercaseSet = ''ABCDEFGHIJKLMNOPQRSTUVWXYZ''"

definition defaultSymbols :: string where
  "defaultSymbols = ''!#%*+-=?@^_~''"

definition similarChars :: string where
  "similarChars = ''iIl1oO0''"

definition symbolsSetOf :: "settings \<Rightarrow> string" where
  "symbolsSetOf s =
     (if includeSymbols s
      then (if customSymbols s \<noteq> [] then customSymbols s else defaultSymbols)
      else [])"

definition charsetOf :: "settings \<Rightarrow> string" where
  "charsetOf s =
     (if includeNumbers s then numbersSet else [])
     @ (if includeLowercase s then lowercaseSet else [])
     @ (if includeUppercase s then uppercaseSet else [])
     @ (if includeSymbols s then symbolsSetOf s else [])"

text \<open>\<^verbatim>\<open>pool.replace(/[0-9]/g, "")\<close> and \<^verbatim>\<open>pool.split(sym).join("")\<close>.\<close>

definition stripDigits :: "string \<Rightarrow> string" where
  "stripDigits pool = filter (\<lambda>c. c \<notin> set numbersSet) pool"

definition stripChar :: "char \<Rightarrow> string \<Rightarrow> string" where
  "stripChar symb pool = filter (\<lambda>c. c \<noteq> symb) pool"

definition firstCharPoolOf :: "settings \<Rightarrow> string" where
  "firstCharPoolOf s =
     (let pool0 = charsetOf s;
          pool1 = (if noStartNumber s then stripDigits pool0 else pool0)
      in if noStartSymbol s \<and> symbolsSetOf s \<noteq> []
         then fold stripChar (symbolsSetOf s) pool1
         else pool1)"

subsection \<open>validateConstraints\<close>

definition validateConstraints :: "int \<Rightarrow> string \<Rightarrow> string \<Rightarrow> bool \<Rightarrow> error + unit" where
  "validateConstraints len charset firstCharPool noDup =
     (if noDup \<and> int (length charset) < len
      then Inl (NotEnoughUniqueCharsError (length charset) len)
      else if length firstCharPool = 0
      then Inl FirstPositionEmptyError
      else Inr ())"

text \<open>
  The checks \<^verbatim>\<open>generatePasswords\<close> performs between building the alphabets and the
  generation loop, \<^verbatim>\<open>validateConstraints\<close> included.
\<close>

definition preflight :: "settings \<Rightarrow> error + unit" where
  "preflight s =
     (if charsetOf s = [] then Inl EmptyCharsetError
      else if length (firstCharPoolOf s) = 0 then Inl EmptyFirstCharPoolError
      else validateConstraints (lengthS s) (charsetOf s) (firstCharPoolOf s) (noDuplicate s))"

subsection \<open>secureRandom and filterSimilarChars\<close>

text \<open>
  \<open>raw\<close> is the raw draw. With \<^verbatim>\<open>crypto\<close> the result is \<^verbatim>\<open>array[0] % max\<close>; the
  \<^verbatim>\<open>Math.random\<close> fallback yields some index below \<open>max\<close> as well, which is \<open>raw mod max\<close>
  for a suitable \<open>raw\<close>. For \<open>max = 0\<close> JavaScript yields \<^verbatim>\<open>NaN\<close> (or 0 in the
  fallback); the source only ever uses such a result to index a string of length 0,
  which is \<^verbatim>\<open>undefined\<close> for every index, as it is with \<open>str_at\<close> here.
\<close>

definition secureRandom :: "nat \<Rightarrow> nat \<Rightarrow> nat" where
  "secureRandom raw mx = raw mod mx"

definition filterSimilarChars :: "string \<Rightarrow> string \<Rightarrow> string" where
  "filterSimilarChars charset similar =
     (if similar = [] then charset else filter (\<lambda>c. c \<notin> set similar) charset)"

subsection \<open>isValidChar\<close>

text \<open>
  \<open>usedChars\<close> and \<open>symbolsSet\<close> are \<^verbatim>\<open>Set|null\<close>: \<open>None\<close> is \<^verbatim>\<open>null\<close>.
  \<open>maxSymbols\<close> is a number or \<^verbatim>\<open>Infinity\<close>.
\<close>

definition symbolRejected :: "jsval \<Rightarrow> jsval list option \<Rightarrow> nat \<Rightarrow> enat \<Rightarrow> bool" where
  "symbolRejected ch symbolsSet symbolCount maxSymbols =
     (case symbolsSet of
        None \<Rightarrow> False
      | Some S \<Rightarrow> set_has S ch \<and> maxSymbols \<le> enat symbolCount)"

definition isValidChar ::
  "jsval \<Rightarrow> jsval \<Rightarrow> jsval list option \<Rightarrow> jsval list option \<Rightarrow> nat \<Rightarrow> enat \<Rightarrow> bool
     \<Rightarrow> error + bool" where
  "isValidChar ch prevChar usedChars symbolsSet symbolCount maxSymbols noSeq =
     (if (case usedChars of None \<Rightarrow> False | Some U \<Rightarrow> set_has U ch) then Inr False
      else if noSeq \<and> truthy prevChar then
        (case ch of
           Chr c \<Rightarrow>
             (case prevChar of
                Chr p \<Rightarrow>
                  if \<bar>charCode c - charCode p\<bar> = 1 then Inr False
                  else Inr (\<not> symbolRejected ch symbolsSet symbolCount maxSymbols)
              | _ \<Rightarrow> Inl TypeError)
         | _ \<Rightarrow> Inl TypeError)
      else Inr (\<not> symbolRejected ch symbolsSet symbolCount maxSymbols))"

subsection \<open>getValidChar\<close>

text \<open>
  \<^verbatim>\<open>usedChars.size > charset.length * 0.5\<close> is \<open>2 * size > length\<close>;
  \<^verbatim>\<open>symbolCount >= maxSymbols * 0.9\<close> is \<open>9 * maxSymbols \<le> 10 * symbolCount\<close>: the
  double nearest to \<open>0.9 * q\<close> is the integer itself when \<open>0.9 * q\<close> is an integer, and is
  otherwise at least a tenth away from every integer.
\<close>

definition hasStrictConstraints ::
  "string \<Rightarrow> jsval list option \<Rightarrow> jsval list option \<Rightarrow> nat \<Rightarrow> enat \<Rightarrow> bool \<Rightarrow> bool" where
  "hasStrictConstraints charset usedChars symbolsSet symbolCount maxSymbols noSeq =
     ((case usedChars of None \<Rightarrow> False | Some U \<Rightarrow> length charset < 2 * set_size U)
      \<or> (case symbolsSet of None \<Rightarrow> False | Some S \<Rightarrow> 9 * maxSymbols \<le> 10 * enat symbolCount)
      \<or> noSeq)"

text \<open>
  The fast path: \<open>n\<close> attempts left. \<open>Inr (Some ch)\<close> is \<^verbatim>\<open>return char\<close>, \<open>Inr None\<close>
  is the loop running out.
\<close>

fun fastPath ::
  "(nat \<Rightarrow> nat) \<Rightarrow> nat \<Rightarrow> nat \<Rightarrow> string \<Rightarrow> jsval \<Rightarrow> jsval list option \<Rightarrow> jsval list option
     \<Rightarrow> nat \<Rightarrow> enat \<Rightarrow> bool \<Rightarrow> (error + jsval option) \<times> nat" where
  "fastPath rs k 0 charset prevChar usedChars symbolsSet symbolCount maxSymbols noSeq =
     (Inr None, k)"
| "fastPath rs k (Suc n) charset prevChar usedChars symbolsSet symbolCount maxSymbols noSeq =
     (let ch = str_at charset (secureRandom (rs k) (length charset)) in
      case isValidChar ch prevChar usedChars symbolsSet symbolCount maxSymbols noSeq of
        Inl e \<Rightarrow> (Inl e, Suc k)
      | Inr True \<Rightarrow> (Inr (Some ch), Suc k)
      | Inr False \<Rightarrow>
          fastPath rs (Suc k) n charset prevChar usedChars symbolsSet symbolCount maxSymbols noSeq)"

text \<open>The scan of the slow path: \<open>validChars\<close> is the accumulator.\<close>

fun scanValid ::
  "string \<Rightarrow> string \<Rightarrow> jsval \<Rightarrow> jsval list option \<Rightarrow> jsval list option \<Rightarrow> nat \<Rightarrow> enat \<Rightarrow> bool
     \<Rightarrow> error + string" where
  "scanValid [] validChars prevChar usedChars symbolsSet symbolCount maxSymbols noSeq =
     Inr validChars"
| "scanValid (c # cs) validChars prevChar usedChars symbolsSet symbolCount maxSymbols noSeq =
     (case isValidChar (Chr c) prevChar usedChars symbolsSet symbolCount maxSymbols noSeq of
        Inl e \<Rightarrow> Inl e
      | Inr b \<Rightarrow>
          scanValid cs (if b then validChars @ [c] else validChars)
            prevChar usedChars symbolsSet symbolCount maxSymbols noSeq)"

definition slowPath ::
  "(nat \<Rightarrow> nat) \<Rightarrow> nat \<Rightarrow> string \<Rightarrow> jsval \<Rightarrow> jsval list option \<Rightarrow> jsval list option
     \<Rightarrow> nat \<Rightarrow> enat \<Rightarrow> bool \<Rightarrow> (error + jsval) \<times> nat" where
  "slowPath rs k charset prevChar usedChars symbolsSet symbolCount maxSymbols noSeq =
     (case scanValid charset [] prevChar usedChars symbolsSet symbolCount maxSymbols noSeq of
        Inl e \<Rightarrow> (Inl e, k)
      | Inr validChars \<Rightarrow>
          if length validChars = 0 then (Inr Null, k)
          else (Inr (str_at validChars (secureRandom (rs k) (length validChars))), Suc k))"

definition getValidChar ::
  "(nat \<Rightarrow> nat) \<Rightarrow> nat \<Rightarrow> string \<Rightarrow> jsval \<Rightarrow> jsval list option \<Rightarrow> jsval list option
     \<Rightarrow> nat \<Rightarrow> enat \<Rightarrow> bool \<Rightarrow> (error + jsval) \<times> nat" where
  "getValidChar rs k charset prevChar usedChars symbolsSet symbolCount maxSymbols noSeq =
     (if \<not> hasStrictConstraints charset usedChars symbolsSet symbolCount maxSymbols noSeq
      then
        (case fastPath rs k 5 charset prevChar usedChars symbolsSet symbolCount maxSymbols noSeq of
           (Inl e, k') \<Rightarrow> (Inl e, k')
         | (Inr (Some ch), k') \<Rightarrow> (Inr ch, k')
         | (Inr None, k') \<Rightarrow>
             slowPath rs k' charset prevChar usedChars symbolsSet symbolCount maxSymbols noSeq)
      else slowPath rs k charset prevChar usedChars symbolsSet symbolCount maxSymbols noSeq)"

subsection \<open>generateNoDuplicatePassword\<close>

text \<open>
  The Fisher-Yates loop \<^verbatim>\<open>for (i = chars.length - 1; i > 0; i--)\<close>; the first numeric
  argument is the number of draws consumed, the second the loop variable \<open>i\<close>.
\<close>

definition swap :: "'a list \<Rightarrow> nat \<Rightarrow> nat \<Rightarrow> 'a list" where
  "swap chars i j = chars[i := chars ! j, j := chars ! i]"

fun fisherYates :: "(nat \<Rightarrow> nat) \<Rightarrow> nat \<Rightarrow> nat \<Rightarrow> 'a list \<Rightarrow> 'a list \<times> nat" where
  "fisherYates rs k 0 chars = (chars, k)"
| "fisherYates rs k (Suc i) chars =
     (let j = secureRandom (rs k) (Suc i + 1)
      in fisherYates rs (Suc k) i (swap chars (Suc i) j))"

definition generateNoDuplicatePassword ::
  "(nat \<Rightarrow> nat) \<Rightarrow> nat \<Rightarrow> int \<Rightarrow> string \<Rightarrow> string \<Rightarrow> string \<times> nat" where
  "generateNoDuplicatePassword rs k len charset firstCharPool =
     (let firstChar = str_at firstCharPool (secureRandom (rs k) (length firstCharPool));
          chars = filter (\<lambda>c. Chr c \<noteq> firstChar) charset;
          (shuffled, k') = fisherYates rs (Suc k) (length chars - 1) chars
      in (toStr firstChar @ slice0 shuffled (len - 1), k'))"

subsection \<open>generateSinglePassword\<close>

text \<open>
  \<^verbatim>\<open>Math.ceil(length * 0.1)\<close> for an integer \<open>length\<close>: the double product is the exact
  tenth when \<open>length\<close> is a multiple of ten and is otherwise at least a tenth away from
  every integer, so the result is the ceiling of \<open>length / 10\<close>.
\<close>

definition ceilTenth :: "int \<Rightarrow> int" where
  "ceilTenth len = - ((- len) div 10)"

text \<open>
  The loop \<^verbatim>\<open>for (i = 1; i < length; i++)\<close>: \<open>n\<close> iterations left, at position \<open>i\<close>.
  The loop changes \<^verbatim>\<open>passwordArray\<close>, \<^verbatim>\<open>usedChars\<close> and \<^verbatim>\<open>symbolCount\<close>; when it
  ends without an error the three are returned as they then are.
\<close>

fun fillRest ::
  "(nat \<Rightarrow> nat) \<Rightarrow> nat \<Rightarrow> nat \<Rightarrow> nat \<Rightarrow> string \<Rightarrow> bool \<Rightarrow> bool \<Rightarrow> jsval list option \<Rightarrow> enat
     \<Rightarrow> jsval list \<Rightarrow> jsval list option \<Rightarrow> nat
     \<Rightarrow> (error + jsval list \<times> jsval list option \<times> nat) \<times> nat" where
  "fillRest rs k 0 i charset noDup noSeq symbolsSet2 maxSymbols passwordArray usedChars symbolCount =
     (Inr (passwordArray, usedChars, symbolCount), k)"
| "fillRest rs k (Suc n) i charset noDup noSeq symbolsSet2 maxSymbols passwordArray usedChars symbolCount =
     (let prevChar = arr_at passwordArray (i - 1) in
      case getValidChar rs k charset prevChar usedChars symbolsSet2 symbolCount maxSymbols noSeq of
        (Inl e, k') \<Rightarrow> (Inl e, k')
      | (Inr Null, k') \<Rightarrow> (Inl (CharacterExhaustionError (i + 1)), k')
      | (Inr nextChar, k') \<Rightarrow>
          fillRest rs k' n (i + 1) charset noDup noSeq symbolsSet2 maxSymbols
            (arr_set passwordArray i nextChar)
            (if noDup then map_option (\<lambda>U. set_add U nextChar) usedChars else usedChars)
            (if (case symbolsSet2 of None \<Rightarrow> False | Some S \<Rightarrow> set_has S nextChar)
             then symbolCount + 1 else symbolCount))"

text \<open>The general path of \<^verbatim>\<open>generateSinglePassword\<close>, from \<^verbatim>\<open>maxSymbols\<close> on.\<close>

definition generalPath ::
  "(nat \<Rightarrow> nat) \<Rightarrow> nat \<Rightarrow> int \<Rightarrow> string \<Rightarrow> string \<Rightarrow> bool \<Rightarrow> bool \<Rightarrow> string
     \<Rightarrow> (error + string) \<times> nat" where
  "generalPath rs k len charset firstCharPool noDup noSeq symbolsSet =
     (if len < 0 \<or> 4294967295 < len then (Inl RangeError, k)
      else
        let maxSymbols = (if symbolsSet \<noteq> [] then enat (nat (ceilTenth len)) else \<infinity>);
            symbolsSet2 = (if symbolsSet \<noteq> [] then Some (newSet symbolsSet) else None);
            passwordArray = replicate (nat len) Undefined;
            usedChars = (if noDup then Some [] else None)
        in
        case getValidChar rs k firstCharPool Null usedChars symbolsSet2 0 maxSymbols noSeq of
          (Inl e, k') \<Rightarrow> (Inl e, k')
        | (Inr Null, k') \<Rightarrow> (Inl StartCharExhaustionError, k')
        | (Inr firstChar, k') \<Rightarrow>
            (case fillRest rs k' (nat (len - 1)) 1 charset noDup noSeq symbolsSet2 maxSymbols
                    (arr_set passwordArray 0 firstChar)
                    (if noDup then map_option (\<lambda>U. set_add U firstChar) usedChars else usedChars)
                    (if (case symbolsSet2 of None \<Rightarrow> False | Some S \<Rightarrow> set_has S firstChar)
                     then 1 else 0) of
               (Inl e, k'') \<Rightarrow> (Inl e, k'')
             | (Inr (arr, used, cnt), k'') \<Rightarrow> (Inr (join arr), k'')))"

definition generateSinglePassword ::
  "(nat \<Rightarrow> nat) \<Rightarrow> nat \<Rightarrow> int \<Rightarrow> string \<Rightarrow> string \<Rightarrow> bool \<Rightarrow> bool \<Rightarrow> bool \<Rightarrow> string
     \<Rightarrow> (error + string) \<times> nat" where
  "generateSinglePassword rs k len charset0 firstCharPool0 noSim noDup noSeq symbolsSet =
     (let charset = (if noSim then filterSimilarChars charset0 similarChars else charset0);
          firstCharPool =
            (if noSim then filterSimilarChars firstCharPool0 similarChars else firstCharPool0)
      in if noSim \<and> length charset = 0 then (Inl SimilarEmptyCharsetError, k)
         else if noSim \<and> length firstCharPool = 0 then (Inl SimilarEmptyFirstCharPoolError, k)
         else if noDup \<and> \<not> noSeq \<and> symbolsSet = []
         then (case generateNoDuplicatePassword rs k len charset firstCharPool of
                 (pw, k') \<Rightarrow> (Inr pw, k'))
         else generalPath rs k len charset firstCharPool noDup noSeq symbolsSet)"

subsection \<open>generatePasswords\<close>

text \<open>
  The loop \<^verbatim>\<open>for (i = 0; i < settings.amount; i++)\<close>, \<open>n\<close> iterations left. The result
  is the list of passwords appended to the page and the error shown, if any.
\<close>

fun generateLoop ::
  "(nat \<Rightarrow> nat) \<Rightarrow> nat \<Rightarrow> nat \<Rightarrow> settings \<Rightarrow> string list \<Rightarrow> string list \<times> error option" where
  "generateLoop rs k 0 s passwordList = (passwordList, None)"
| "generateLoop rs k (Suc n) s passwordList =
     (case generateSinglePassword rs k (lengthS s) (charsetOf s) (firstCharPoolOf s)
             (noSimilar s) (noDuplicate s) (noSequential s) (symbolsSetOf s) of
        (Inl e, k') \<Rightarrow> (passwordList, Some e)
      | (Inr password, k') \<Rightarrow> generateLoop rs k' n s (passwordList @ [password]))"

definition generatePasswords :: "(nat \<Rightarrow> nat) \<Rightarrow> settings \<Rightarrow> string list \<times> error option" where
  "generatePasswords rs s =
     (case preflight s of
        Inl e \<Rightarrow> ([], Some e)
      | Inr u \<Rightarrow> generateLoop rs 0 (nat (amount s)) s [])"

subsection \<open>The loops with their loop variables\<close>

text \<open>
  Above, every loop of the source is a recursion on the number of passes that are left.
  Here the same loops are written as the source writes them, with the loop variable and
  the loop condition, as functions that need not return: \<open>None\<close> is a loop that runs for
  ever. Besides the result and the number \<open>k\<close> of draws consumed they return the work
  \<open>w\<close>: the number of passes through a loop body that tests one character, swaps two
  characters or filters one character.
\<close>





















subsection \<open>Notions used in the statements\<close>

text \<open>
  The rejection conditions of the validity predicate, as a predicate on a character:
  the character is in the used-set, or it is adjacent in code to the previous character
  while \<open>noSeq\<close> is set, or it is a symbol and the quota is used up. It is compared with
  \<open>isValidChar\<close> in lemma \<open>isValidChar_Chr\<close>.
\<close>

definition rejected ::
  "char \<Rightarrow> jsval \<Rightarrow> jsval list option \<Rightarrow> jsval list option \<Rightarrow> nat \<Rightarrow> enat \<Rightarrow> bool \<Rightarrow> bool" where
  "rejected c prevChar usedChars symbolsSet symbolCount maxSymbols noSeq =
     ((case usedChars of None \<Rightarrow> False | Some U \<Rightarrow> Chr c \<in> set U)
      \<or> (noSeq \<and> (\<exists>p. prevChar = Chr p \<and> \<bar>charCode c - charCode p\<bar> = 1))
      \<or> (case symbolsSet of None \<Rightarrow> False | Some S \<Rightarrow> Chr c \<in> set S \<and> maxSymbols \<le> enat symbolCount))"

text \<open>The number of characters of a password that belong to the symbol set.\<close>

definition symCount :: "string \<Rightarrow> string \<Rightarrow> nat" where
  "symCount symbolsSet pw = length (filter (\<lambda>c. c \<in> set symbolsSet) pw)"

text \<open>
  The loop invariant of the general path: \<open>cs\<close> are the characters placed so far,
  \<open>usedChars\<close> holds exactly these when duplicates are excluded, and \<open>symbolCount\<close>
  counts the symbols among them and is within the quota.
\<close>

definition genInv :: "bool \<Rightarrow> string \<Rightarrow> enat \<Rightarrow> string \<Rightarrow> jsval list option \<Rightarrow> nat \<Rightarrow> bool" where
  "genInv noDup symbolsSet maxSymbols cs usedChars symbolCount =
     ((if noDup then (\<exists>U. usedChars = Some U \<and> set U = Chr ` set cs) \<and> distinct cs
       else usedChars = None)
      \<and> (symbolsSet \<noteq> [] \<longrightarrow> symbolCount = symCount symbolsSet cs \<and> enat symbolCount \<le> maxSymbols))"

text \<open>The value of \<^verbatim>\<open>symbolsSet2\<close> in \<^verbatim>\<open>generateSinglePassword\<close>.\<close>

definition symbolsSet2Of :: "string \<Rightarrow> jsval list option" where
  "symbolsSet2Of symbolsSet = (if symbolsSet \<noteq> [] then Some (newSet symbolsSet) else None)"

text \<open>The array after the whole Fisher-Yates loop.\<close>

definition shuffled :: "(nat \<Rightarrow> nat) \<Rightarrow> nat \<Rightarrow> 'a list \<Rightarrow> 'a list" where
  "shuffled rs k xs = fst (fisherYates rs k (length xs - 1) xs)"

text \<open>
  The alphabets \<^verbatim>\<open>generateSinglePassword\<close> samples from: the arguments, filtered when
  \<^verbatim>\<open>noSimilar\<close> is set.
\<close>

definition effCharset :: "settings \<Rightarrow> string" where
  "effCharset s = (if noSimilar s then filterSimilarChars (charsetOf s) similarChars else charsetOf s)"

definition effFirstCharPool :: "settings \<Rightarrow> string" where
  "effFirstCharPool s =
     (if noSimilar s then filterSimilarChars (firstCharPoolOf s) similarChars else firstCharPoolOf s)"

text \<open>The condition under which \<^verbatim>\<open>generateSinglePassword\<close> delegates to the shuffle.\<close>

definition usesFastPath :: "settings \<Rightarrow> bool" where
  "usesFastPath s = (noDuplicate s \<and> \<not> noSequential s \<and> symbolsSetOf s = [])"

text \<open>
  The characters of the sampled alphabet that are not symbols outnumber the characters
  that one position can exclude: the characters already used, when duplicates are
  excluded, and the two neighbours in code of the previous character, when sequences are.
\<close>

definition freeChoice :: "settings \<Rightarrow> bool" where
  "freeChoice s =
     ((if noDuplicate s then nat (lengthS s) else 1) + (if noSequential s then 2 else 0)
        \<le> card (set (effCharset s) - set (symbolsSetOf s)))"

text \<open>The call of \<^verbatim>\<open>generateSinglePassword\<close> in the loop of \<^verbatim>\<open>generatePasswords\<close>.\<close>

definition genOne :: "(nat \<Rightarrow> nat) \<Rightarrow> nat \<Rightarrow> settings \<Rightarrow> (error + string) \<times> nat" where
  "genOne rs k s = generateSinglePassword rs k (lengthS s) (charsetOf s) (firstCharPoolOf s)
             (noSimilar s) (noDuplicate s) (noSequential s) (symbolsSetOf s)"

subsection \<open>Example settings\<close>

text \<open>Digits only, length 10, one password, every exclusion off.\<close>

definition onlyNumbers :: settings where
  "onlyNumbers = \<lparr> lengthS = 10, amount = 1, includeNumbers = True, includeLowercase = False,
     includeUppercase = False, includeSymbols = False, customSymbols = [],
     noStartNumber = False, noStartSymbol = False, noSimilar = False, noDuplicate = False,
     noSequential = False \<rparr>"

section \<open>Properties of the selector and the generators\<close>

lemma ceilTenth_ceiling: "ceilTenth len = \<lceil>real_of_int len / 10\<rceil>"
  using ceiling_divide_eq_div[of len 10, where ?'a = real] by (simp add: ceilTenth_def)

subsection \<open>The validity predicate and the choice of one character\<close>

lemma isValidChar_Chr:
  "isValidChar (Chr c) prevChar usedChars symbolsSet symbolCount maxSymbols noSeq
     = Inr (\<not> rejected c prevChar usedChars symbolsSet symbolCount maxSymbols noSeq)"
  by (cases prevChar; cases usedChars; cases symbolsSet)
     (auto simp: isValidChar_def rejected_def symbolRejected_def set_has_def)

lemma scanValid_filter:
  "scanValid cs acc prevChar usedChars symbolsSet symbolCount maxSymbols noSeq
     = Inr (acc @ filter (\<lambda>c. \<not> rejected c prevChar usedChars symbolsSet symbolCount maxSymbols noSeq) cs)"
  by (induction cs arbitrary: acc) (simp_all add: isValidChar_Chr)

lemma str_at_mod:
  "s \<noteq> [] \<Longrightarrow> str_at s (secureRandom raw (length s)) = Chr (s ! (raw mod length s))"
  by (simp add: str_at_def secureRandom_def)

lemma slowPath_result:
  "slowPath rs k charset prevChar usedChars symbolsSet symbolCount maxSymbols noSeq =
    (let valid = filter (\<lambda>c. \<not> rejected c prevChar usedChars symbolsSet symbolCount maxSymbols noSeq) charset
     in if valid = [] then (Inr Null, k)
        else (Inr (Chr (valid ! (rs k mod length valid))), Suc k))"
  by (simp add: slowPath_def scanValid_filter Let_def str_at_mod)

lemma fastPath_cases:
  assumes "charset \<noteq> []"
  shows "fastPath rs k n charset prevChar usedChars symbolsSet symbolCount maxSymbols noSeq = (Inr None, k + n)
       \<or> (\<exists>c k'. fastPath rs k n charset prevChar usedChars symbolsSet symbolCount maxSymbols noSeq = (Inr (Some (Chr c)), k')
             \<and> c \<in> set charset
             \<and> \<not> rejected c prevChar usedChars symbolsSet symbolCount maxSymbols noSeq
             \<and> k < k' \<and> k' \<le> k + n)"
proof (induction n arbitrary: k)
  case 0
  show ?case by simp
next
  case (Suc n)
  let ?c = "charset ! (rs k mod length charset)"
  have mem: "?c \<in> set charset" using assms by simp
  show ?case
  proof (cases "rejected ?c prevChar usedChars symbolsSet symbolCount maxSymbols noSeq")
    case True
    then show ?thesis
      using Suc.IH[of "Suc k"] assms
      by (auto simp: str_at_mod isValidChar_Chr)
  next
    case False
    then show ?thesis
      using mem assms by (simp add: str_at_mod isValidChar_Chr)
  qed
qed

lemma filter_pick:
  assumes "filter P xs \<noteq> []"
  shows "filter P xs ! (r mod length (filter P xs)) \<in> set xs \<and> P (filter P xs ! (r mod length (filter P xs)))"
proof -
  have "filter P xs ! (r mod length (filter P xs)) \<in> set (filter P xs)"
    using assms by (intro nth_mem) simp
  then show ?thesis by simp
qed

lemma getValidChar_cases:
  assumes "charset \<noteq> []"
  shows "(filter (\<lambda>c. \<not> rejected c prevChar usedChars symbolsSet symbolCount maxSymbols noSeq) charset = []
          \<and> (\<exists>k'. getValidChar rs k charset prevChar usedChars symbolsSet symbolCount maxSymbols noSeq = (Inr Null, k')
                 \<and> k \<le> k' \<and> k' \<le> k + 5))
       \<or> (\<exists>c k'. getValidChar rs k charset prevChar usedChars symbolsSet symbolCount maxSymbols noSeq = (Inr (Chr c), k')
             \<and> c \<in> set charset
             \<and> \<not> rejected c prevChar usedChars symbolsSet symbolCount maxSymbols noSeq
             \<and> k < k' \<and> k' \<le> k + 6)"
proof -
  let ?P = "\<lambda>c. \<not> rejected c prevChar usedChars symbolsSet symbolCount maxSymbols noSeq"
  let ?valid = "filter ?P charset"
  have slow: "\<And>j. (?valid = [] \<and> slowPath rs j charset prevChar usedChars symbolsSet symbolCount maxSymbols noSeq = (Inr Null, j))
      \<or> (\<exists>c. slowPath rs j charset prevChar usedChars symbolsSet symbolCount maxSymbols noSeq = (Inr (Chr c), Suc j)
             \<and> c \<in> set charset \<and> ?P c)"
  proof -
    fix j
    show "(?valid = [] \<and> slowPath rs j charset prevChar usedChars symbolsSet symbolCount maxSymbols noSeq = (Inr Null, j))
      \<or> (\<exists>c. slowPath rs j charset prevChar usedChars symbolsSet symbolCount maxSymbols noSeq = (Inr (Chr c), Suc j)
             \<and> c \<in> set charset \<and> ?P c)"
    proof (cases "?valid = []")
      case True
      then show ?thesis by (simp add: slowPath_result)
    next
      case False
      from filter_pick[OF False, of "rs j"] False
      show ?thesis by (simp add: slowPath_result Let_def)
    qed
  qed
  show ?thesis
  proof (cases "hasStrictConstraints charset usedChars symbolsSet symbolCount maxSymbols noSeq")
    case True
    then show ?thesis using slow[of k] by (auto simp: getValidChar_def)
  next
    case False
    from fastPath_cases[OF assms, of rs k 5 prevChar usedChars symbolsSet symbolCount maxSymbols noSeq]
    show ?thesis
    proof
      assume "fastPath rs k 5 charset prevChar usedChars symbolsSet symbolCount maxSymbols noSeq = (Inr None, k + 5)"
      then show ?thesis using False slow[of "k + 5"] by (auto simp: getValidChar_def)
    next
      assume "\<exists>c k'. fastPath rs k 5 charset prevChar usedChars symbolsSet symbolCount maxSymbols noSeq = (Inr (Some (Chr c)), k')
             \<and> c \<in> set charset \<and> ?P c \<and> k < k' \<and> k' \<le> k + 5"
      then show ?thesis using False by (auto simp: getValidChar_def)
    qed
  qed
qed

subsection \<open>The invariant of the general path\<close>

lemma set_fold_set_add:
  "set (fold (\<lambda>c S. set_add S (Chr c)) str S0) = set S0 \<union> Chr ` set str"
  by (induction str arbitrary: S0) (auto simp: set_add_def)

lemma set_newSet: "set (newSet str) = Chr ` set str"
  by (simp add: newSet_def set_fold_set_add)

lemma has_symbolsSet2Of:
  "(case symbolsSet2Of symbolsSet of None \<Rightarrow> False | Some S \<Rightarrow> set_has S (Chr c)) = (c \<in> set symbolsSet)"
  by (auto simp: symbolsSet2Of_def set_has_def set_newSet)

lemma enat_Suc_le: "\<not> q \<le> enat n \<Longrightarrow> enat (Suc n) \<le> q"
  by (cases q) auto

lemma genInv_step:
  assumes inv: "genInv noDup symbolsSet maxSymbols cs usedChars symbolCount"
    and ok: "\<not> rejected c prevChar usedChars (symbolsSet2Of symbolsSet) symbolCount maxSymbols noSeq"
  shows "genInv noDup symbolsSet maxSymbols (cs @ [c])
           (if noDup then map_option (\<lambda>U. set_add U (Chr c)) usedChars else usedChars)
           (if (case symbolsSet2Of symbolsSet of None \<Rightarrow> False | Some S \<Rightarrow> set_has S (Chr c))
            then symbolCount + 1 else symbolCount)"
proof -
  have dup: "noDup \<Longrightarrow> (\<exists>U. map_option (\<lambda>U. set_add U (Chr c)) usedChars = Some U \<and> set U = Chr ` set (cs @ [c]))
                \<and> distinct (cs @ [c])"
  proof -
    assume nd: "noDup"
    with inv obtain U where U: "usedChars = Some U" "set U = Chr ` set cs" "distinct cs"
      by (auto simp: genInv_def)
    from ok U have "Chr c \<notin> set U" by (simp add: rejected_def)
    with U have "c \<notin> set cs" by auto
    with U show ?thesis by (auto simp: set_add_def)
  qed
  have nodup: "\<not> noDup \<Longrightarrow> usedChars = None"
    using inv by (simp add: genInv_def)
  have sym: "symbolsSet \<noteq> [] \<Longrightarrow>
      (if c \<in> set symbolsSet then symbolCount + 1 else symbolCount) = symCount symbolsSet (cs @ [c])
      \<and> enat (if c \<in> set symbolsSet then symbolCount + 1 else symbolCount) \<le> maxSymbols"
  proof -
    assume ne: "symbolsSet \<noteq> []"
    with inv have c: "symbolCount = symCount symbolsSet cs" "enat symbolCount \<le> maxSymbols"
      by (auto simp: genInv_def)
    have "c \<in> set symbolsSet \<Longrightarrow> \<not> maxSymbols \<le> enat symbolCount"
      using ok ne by (auto simp: rejected_def symbolsSet2Of_def set_newSet)
    then have "c \<in> set symbolsSet \<Longrightarrow> enat (Suc symbolCount) \<le> maxSymbols"
      by (rule enat_Suc_le)
    with c show ?thesis by (simp add: symCount_def)
  qed
  show ?thesis
    unfolding genInv_def has_symbolsSet2Of
  proof (intro conjI impI)
    show "if noDup
      then (\<exists>U. (if noDup then map_option (\<lambda>U. set_add U (Chr c)) usedChars else usedChars) = Some U
              \<and> set U = Chr ` set (cs @ [c])) \<and> distinct (cs @ [c])
      else (if noDup then map_option (\<lambda>U. set_add U (Chr c)) usedChars else usedChars) = None"
      using dup nodup by (cases noDup) simp_all
  next
    assume "symbolsSet \<noteq> []"
    from sym[OF this]
    show "(if c \<in> set symbolsSet then symbolCount + 1 else symbolCount) = symCount symbolsSet (cs @ [c])"
      by (rule conjunct1)
  next
    assume "symbolsSet \<noteq> []"
    from sym[OF this]
    show "enat (if c \<in> set symbolsSet then symbolCount + 1 else symbolCount) \<le> maxSymbols"
      by (rule conjunct2)
  qed
qed

lemma arr_at_last:
  "cs \<noteq> [] \<Longrightarrow> arr_at (map Chr cs @ rest) (length cs - Suc 0) = Chr (last cs)"
  by (cases cs rule: rev_cases) (simp_all add: arr_at_def nth_append)

lemma arr_set_next:
  "arr_set (map Chr cs @ replicate (Suc n) Undefined) (length cs) v
     = map Chr cs @ v # replicate n Undefined"
  by (simp add: arr_set_def list_update_append)

lemma fillRest_inv:
  assumes "charset \<noteq> []"
  shows "cs \<noteq> [] \<Longrightarrow> genInv noDup symbolsSet maxSymbols cs usedChars symbolCount \<Longrightarrow>
     fillRest rs k n (length cs) charset noDup noSeq (symbolsSet2Of symbolsSet) maxSymbols
        (map Chr cs @ replicate n Undefined) usedChars symbolCount = (Inr (arr, used', cnt'), k') \<Longrightarrow>
     \<exists>cs'. arr = map Chr cs' \<and> length cs' = length cs + n
        \<and> genInv noDup symbolsSet maxSymbols cs' used' cnt'
        \<and> set cs' \<subseteq> set cs \<union> set charset"
proof (induction n arbitrary: cs usedChars symbolCount k)
  case 0
  then show ?case by auto
next
  case (Suc n)
  let ?prev = "Chr (last cs)"
  from getValidChar_cases[OF assms, of ?prev usedChars "symbolsSet2Of symbolsSet" symbolCount maxSymbols noSeq rs k]
  show ?case
  proof (elim disjE conjE exE)
    fix k1
    assume "getValidChar rs k charset ?prev usedChars (symbolsSet2Of symbolsSet) symbolCount maxSymbols noSeq = (Inr Null, k1)"
    with Suc.prems show ?thesis by (simp add: arr_at_last del: replicate_Suc)
  next
    fix c k1
    assume g: "getValidChar rs k charset ?prev usedChars (symbolsSet2Of symbolsSet) symbolCount maxSymbols noSeq = (Inr (Chr c), k1)"
      and mem: "c \<in> set charset"
      and ok: "\<not> rejected c ?prev usedChars (symbolsSet2Of symbolsSet) symbolCount maxSymbols noSeq"
    let ?used = "if noDup then map_option (\<lambda>U. set_add U (Chr c)) usedChars else usedChars"
    let ?cnt = "if (case symbolsSet2Of symbolsSet of None \<Rightarrow> False | Some S \<Rightarrow> set_has S (Chr c))
            then symbolCount + 1 else symbolCount"
    have inv': "genInv noDup symbolsSet maxSymbols (cs @ [c]) ?used ?cnt"
      by (rule genInv_step[OF Suc.prems(2) ok])
    have rec: "fillRest rs k1 n (length (cs @ [c])) charset noDup noSeq (symbolsSet2Of symbolsSet) maxSymbols
        (map Chr (cs @ [c]) @ replicate n Undefined) ?used ?cnt = (Inr (arr, used', cnt'), k')"
      using Suc.prems(3) Suc.prems(1) g
      by (simp add: arr_at_last arr_set_next del: replicate_Suc)
    from Suc.IH[OF _ inv' rec] obtain cs' where
      "arr = map Chr cs'" "length cs' = length (cs @ [c]) + n"
      "genInv noDup symbolsSet maxSymbols cs' used' cnt'"
      "set cs' \<subseteq> set (cs @ [c]) \<union> set charset"
      by auto
    with mem show ?thesis by auto
  qed
qed

lemma genInv_init:
  "genInv noDup symbolsSet maxSymbols [] (if noDup then Some [] else None) 0"
  by (simp add: genInv_def symCount_def zero_enat_def[symmetric])

lemma arr_set_first:
  "arr_set (replicate (nat len) Undefined) 0 v = v # replicate (nat (len - 1)) Undefined"
proof (cases "nat len")
  case 0
  then have "nat (len - 1) = 0" by simp
  with 0 show ?thesis by (simp add: arr_set_def)
next
  case (Suc m)
  then have "nat (len - 1) = m" by simp
  with Suc show ?thesis by (simp add: arr_set_def)
qed

lemma join_map_Chr: "join (map Chr cs) = cs"
  by (induction cs) (simp_all add: join_def)

lemma generalPath_ok:
  assumes cs: "charset \<noteq> []" and fp: "firstCharPool \<noteq> []"
    and res: "generalPath rs k len charset firstCharPool noDup noSeq symbolsSet = (Inr pw, k')"
  shows "0 \<le> len \<and> length pw = Suc (nat (len - 1))
       \<and> (noDup \<longrightarrow> distinct pw)
       \<and> (symbolsSet \<noteq> [] \<longrightarrow> symCount symbolsSet pw \<le> nat (ceilTenth len))
       \<and> set pw \<subseteq> set firstCharPool \<union> set charset"
proof -
  let ?Q = "if symbolsSet \<noteq> [] then enat (nat (ceilTenth len)) else \<infinity>"
  let ?S = "symbolsSet2Of symbolsSet"
  let ?U0 = "if noDup then Some [] else None"
  from res have len: "0 \<le> len" "\<not> 4294967295 < len"
    by (auto simp: generalPath_def split: if_splits)
  from getValidChar_cases[OF fp, of Null ?U0 ?S 0 ?Q noSeq rs k]
  show ?thesis
  proof (elim disjE conjE exE)
    fix k1
    assume "getValidChar rs k firstCharPool Null ?U0 ?S 0 ?Q noSeq = (Inr Null, k1)"
    with res len show ?thesis
      by (simp add: generalPath_def Let_def symbolsSet2Of_def)
  next
    fix c k1
    assume g: "getValidChar rs k firstCharPool Null ?U0 ?S 0 ?Q noSeq = (Inr (Chr c), k1)"
      and mem: "c \<in> set firstCharPool"
      and ok: "\<not> rejected c Null ?U0 ?S 0 ?Q noSeq"
    let ?used = "if noDup then map_option (\<lambda>U. set_add U (Chr c)) ?U0 else ?U0"
    let ?cnt = "if (case ?S of None \<Rightarrow> False | Some S \<Rightarrow> set_has S (Chr c)) then 1 else 0"
    have inv1: "genInv noDup symbolsSet ?Q ([] @ [c]) ?used ?cnt"
      using genInv_step[OF genInv_init ok] by (simp cong: if_cong)
    from res len g obtain arr used' cnt' where
      fr: "fillRest rs k1 (nat (len - 1)) 1 charset noDup noSeq ?S ?Q
             (Chr c # replicate (nat (len - 1)) Undefined) ?used ?cnt = (Inr (arr, used', cnt'), k')"
      and pw: "pw = join arr"
      by (auto simp: generalPath_def Let_def symbolsSet2Of_def arr_set_first split: prod.splits sum.splits)
    from fr have fr': "fillRest rs k1 (nat (len - 1)) (length [c]) charset noDup noSeq ?S ?Q
             (map Chr [c] @ replicate (nat (len - 1)) Undefined) ?used ?cnt = (Inr (arr, used', cnt'), k')"
      by simp
    from fillRest_inv[OF cs _ _ fr'] inv1 obtain cs' where
      r: "arr = map Chr cs'" "length cs' = length [c] + nat (len - 1)"
         "genInv noDup symbolsSet ?Q cs' used' cnt'" "set cs' \<subseteq> set [c] \<union> set charset"
      by auto
    from r(1) pw have pw': "pw = cs'" by (simp add: join_map_Chr)
    from r(3) have d: "noDup \<longrightarrow> distinct cs'" by (simp add: genInv_def)
    from r(3) have q: "symbolsSet \<noteq> [] \<longrightarrow> symCount symbolsSet cs' \<le> nat (ceilTenth len)"
      by (auto simp: genInv_def)
    from pw' r(2) r(4) d q mem len show ?thesis by auto
  qed
qed

subsection \<open>The shuffle path\<close>

lemma swap_props:
  assumes "i < length xs" "j < length xs"
  shows "mset (swap xs i j) = mset xs" "length (swap xs i j) = length xs"
  using assms mset_swap[of j xs i] by (simp_all add: swap_def)

lemma fisherYates_props:
  "i < length xs \<or> i = 0 \<Longrightarrow>
     mset (fst (fisherYates rs k i xs)) = mset xs \<and> snd (fisherYates rs k i xs) = k + i"
proof (induction i arbitrary: k xs)
  case 0
  show ?case by simp
next
  case (Suc i)
  then have lt: "Suc i < length xs" by simp
  let ?j = "secureRandom (rs k) (Suc i + 1)"
  have "?j < Suc i + 1" by (simp add: secureRandom_def)
  with lt have j: "?j < length xs" by simp
  from swap_props[OF lt j] lt
  have "i < length (swap xs (Suc i) ?j) \<or> i = 0" by simp
  from Suc.IH[OF this, of "Suc k"] swap_props(1)[OF lt j]
  show ?case by (simp add: Let_def)
qed

lemma fisherYates_draws: "snd (fisherYates rs k i xs) = k + i"
  by (induction i arbitrary: k xs) (simp_all add: Let_def)

lemma mset_shuffled: "mset (shuffled rs k xs) = mset xs"
proof -
  have "length xs - 1 < length xs \<or> length xs - 1 = 0" by (cases xs) simp_all
  from fisherYates_props[OF this] show ?thesis by (simp add: shuffled_def)
qed

lemma generateNoDuplicatePassword_eq:
  assumes fp: "firstCharPool \<noteq> []"
  shows "generateNoDuplicatePassword rs k len charset firstCharPool =
     (let c = firstCharPool ! (rs k mod length firstCharPool);
          chars = filter (\<lambda>x. x \<noteq> c) charset
      in (c # slice0 (shuffled rs (Suc k) chars) (len - 1), Suc k + (length chars - 1)))"
proof -
  have "fisherYates rs (Suc k) (length xs - 1) xs = (shuffled rs (Suc k) xs, Suc k + (length xs - 1))"
    for xs :: string
    using fisherYates_draws[of rs "Suc k" "length xs - 1" xs]
    by (simp add: shuffled_def prod_eq_iff)
  then show ?thesis
    using fp by (simp add: generateNoDuplicatePassword_def str_at_mod Let_def)
qed

lemma filter_neq_remove1:
  "distinct xs \<Longrightarrow> filter (\<lambda>x. x \<noteq> c) xs = remove1 c xs"
  by (induction xs) (auto simp: filter_id_conv)

lemma noDup_fast_distinct:
  assumes "distinct charset"
  shows "distinct (c # slice0 (shuffled rs k (filter (\<lambda>x. x \<noteq> c) charset)) e)"
proof -
  let ?chars = "filter (\<lambda>x. x \<noteq> c) charset"
  have d: "distinct ?chars" using assms by simp
  have m: "mset (shuffled rs k ?chars) = mset ?chars" by (rule mset_shuffled)
  from m d have ds: "distinct (shuffled rs k ?chars)"
    by (metis mset_eq_imp_distinct_iff)
  from m have "set (shuffled rs k ?chars) = set ?chars" by (rule mset_eq_setD)
  then have nin: "c \<notin> set (shuffled rs k ?chars)" by simp
  have sub: "set (slice0 (shuffled rs k ?chars) e) \<subseteq> set (shuffled rs k ?chars)"
    by (auto simp: slice0_def dest: in_set_takeD)
  have "distinct (slice0 (shuffled rs k ?chars) e)"
    using ds by (simp add: slice0_def)
  with nin sub show ?thesis by auto
qed

lemma length_shuffled: "length (shuffled rs k xs) = length xs"
  using mset_shuffled[of rs k xs] by (metis size_mset)

subsection \<open>Alphabets built from settings\<close>

lemma symbolsSetOf_empty_iff: "symbolsSetOf s = [] \<longleftrightarrow> \<not> includeSymbols s"
  by (simp add: symbolsSetOf_def defaultSymbols_def)

lemma distinct_alnum: "distinct (numbersSet @ lowercaseSet @ uppercaseSet)"
  by (simp add: numbersSet_def lowercaseSet_def uppercaseSet_def)

lemma distinct_charsetOf: "\<not> includeSymbols s \<Longrightarrow> distinct (charsetOf s)"
  using distinct_alnum by (auto simp: charsetOf_def)

lemma set_fold_stripChar: "set (fold stripChar syms pool) \<subseteq> set pool"
proof (induction syms arbitrary: pool)
  case Nil
  show ?case by simp
next
  case (Cons a syms)
  have "set (fold stripChar syms (stripChar a pool)) \<subseteq> set (stripChar a pool)"
    by (rule Cons.IH)
  also have "\<dots> \<subseteq> set pool" by (auto simp: stripChar_def)
  finally show ?case by simp
qed

lemma firstCharPoolOf_subset: "set (firstCharPoolOf s) \<subseteq> set (charsetOf s)"
proof -
  let ?pool1 = "if noStartNumber s then stripDigits (charsetOf s) else charsetOf s"
  have p1: "set ?pool1 \<subseteq> set (charsetOf s)" by (auto simp: stripDigits_def)
  have "set (fold stripChar (symbolsSetOf s) ?pool1) \<subseteq> set ?pool1"
    by (rule set_fold_stripChar)
  with p1 have "set (fold stripChar (symbolsSetOf s) ?pool1) \<subseteq> set (charsetOf s)"
    by (rule order_trans[rotated])
  with p1 show ?thesis by (simp add: firstCharPoolOf_def Let_def)
qed

lemma effCharset_distinct: "\<not> includeSymbols s \<Longrightarrow> distinct (effCharset s)"
  by (simp add: effCharset_def filterSimilarChars_def distinct_charsetOf)

lemma effFirstCharPool_subset: "set (effFirstCharPool s) \<subseteq> set (effCharset s)"
  using firstCharPoolOf_subset[of s]
  by (auto simp: effFirstCharPool_def effCharset_def filterSimilarChars_def)

lemma firstCharPoolOf_nosym:
  "\<not> includeSymbols s \<Longrightarrow>
     firstCharPoolOf s = (if noStartNumber s then stripDigits (charsetOf s) else charsetOf s)"
  by (simp add: firstCharPoolOf_def symbolsSetOf_def)

lemma stripDigits_simps:
  "stripDigits [] = []" "stripDigits numbersSet = []" "stripDigits lowercaseSet = lowercaseSet"
  "stripDigits uppercaseSet = uppercaseSet" "stripDigits (a @ b) = stripDigits a @ stripDigits b"
  by (simp_all add: stripDigits_def numbersSet_def lowercaseSet_def uppercaseSet_def)

lemma filterSimilar_nonempty:
  "filterSimilarChars numbersSet similarChars \<noteq> []"
  "filterSimilarChars lowercaseSet similarChars \<noteq> []"
  "filterSimilarChars uppercaseSet similarChars \<noteq> []"
  by (simp_all add: filterSimilarChars_def numbersSet_def lowercaseSet_def uppercaseSet_def similarChars_def)

lemma filterSimilar_append:
  "filterSimilarChars (a @ b) similarChars = filterSimilarChars a similarChars @ filterSimilarChars b similarChars"
  by (simp add: filterSimilarChars_def similarChars_def)

lemma filterSimilar_Nil: "filterSimilarChars [] similarChars = []"
  by (simp add: filterSimilarChars_def)

lemma effFirstCharPool_nonempty:
  assumes "\<not> includeSymbols s" "firstCharPoolOf s \<noteq> []"
  shows "effFirstCharPool s \<noteq> []"
proof (cases "noSimilar s")
  case False
  with assms show ?thesis by (simp add: effFirstCharPool_def)
next
  case True
  have ne: "numbersSet \<noteq> []" "lowercaseSet \<noteq> []" "uppercaseSet \<noteq> []"
    by (simp_all add: numbersSet_def lowercaseSet_def uppercaseSet_def)
  from assms True ne show ?thesis
    unfolding effFirstCharPool_def firstCharPoolOf_nosym[OF assms(1)] charsetOf_def
    by (cases "includeNumbers s"; cases "includeLowercase s"; cases "includeUppercase s";
        cases "noStartNumber s")
       (simp_all add: stripDigits_simps filterSimilar_append filterSimilar_nonempty filterSimilar_Nil)
qed

lemma effCharset_nonempty:
  "effFirstCharPool s \<noteq> [] \<Longrightarrow> effCharset s \<noteq> []"
  using effFirstCharPool_subset[of s] by auto

lemma preflight_ok:
  "preflight s = Inr u \<Longrightarrow> charsetOf s \<noteq> [] \<and> firstCharPoolOf s \<noteq> []
      \<and> (noDuplicate s \<longrightarrow> lengthS s \<le> int (length (charsetOf s)))"
  by (auto simp: preflight_def validateConstraints_def split: if_splits)

subsection \<open>One password and the batch loop\<close>

lemma genOne_eq:
  "genOne rs k s =
     (if noSimilar s \<and> effCharset s = [] then (Inl SimilarEmptyCharsetError, k)
      else if noSimilar s \<and> effFirstCharPool s = [] then (Inl SimilarEmptyFirstCharPoolError, k)
      else if usesFastPath s
      then (case generateNoDuplicatePassword rs k (lengthS s) (effCharset s) (effFirstCharPool s) of
              (pw, k') \<Rightarrow> (Inr pw, k'))
      else generalPath rs k (lengthS s) (effCharset s) (effFirstCharPool s)
             (noDuplicate s) (noSequential s) (symbolsSetOf s))"
  by (auto simp: genOne_def generateSinglePassword_def effCharset_def effFirstCharPool_def
        usesFastPath_def Let_def)

lemma eff_nonempty:
  assumes "preflight s = Inr u" "genOne rs k s = (Inr pw, k')"
  shows "effCharset s \<noteq> []" "effFirstCharPool s \<noteq> []"
proof -
  from preflight_ok[OF assms(1)] have ne: "charsetOf s \<noteq> []" "firstCharPoolOf s \<noteq> []" by simp_all
  show "effCharset s \<noteq> []"
  proof (cases "noSimilar s")
    case True
    with assms(2) show ?thesis by (auto simp: genOne_eq split: if_splits)
  next
    case False
    with ne show ?thesis by (simp add: effCharset_def)
  qed
  show "effFirstCharPool s \<noteq> []"
  proof (cases "noSimilar s")
    case True
    with assms(2) show ?thesis by (auto simp: genOne_eq split: if_splits)
  next
    case False
    with ne show ?thesis by (simp add: effFirstCharPool_def)
  qed
qed

lemma fast_result:
  assumes fast: "usesFastPath s" and ne: "effFirstCharPool s \<noteq> []"
    and nosim: "noSimilar s \<longrightarrow> effCharset s \<noteq> []"
  shows "\<exists>c \<in> set (effFirstCharPool s).
           c = effFirstCharPool s ! (rs k mod length (effFirstCharPool s))
         \<and> genOne rs k s =
           (Inr (c # slice0 (shuffled rs (Suc k) (remove1 c (effCharset s))) (lengthS s - 1)),
            Suc k + (length (remove1 c (effCharset s)) - 1))
         \<and> c \<in> set (effCharset s)
         \<and> length (remove1 c (effCharset s)) = length (effCharset s) - 1
         \<and> distinct (effCharset s)"
proof -
  let ?c = "effFirstCharPool s ! (rs k mod length (effFirstCharPool s))"
  from fast have nosym: "\<not> includeSymbols s"
    by (simp add: usesFastPath_def symbolsSetOf_empty_iff)
  have d: "distinct (effCharset s)" by (rule effCharset_distinct[OF nosym])
  have mem: "?c \<in> set (effFirstCharPool s)" using ne by simp
  with effFirstCharPool_subset have mem': "?c \<in> set (effCharset s)" by blast
  have "genOne rs k s =
           (Inr (?c # slice0 (shuffled rs (Suc k) (remove1 ?c (effCharset s))) (lengthS s - 1)),
            Suc k + (length (remove1 ?c (effCharset s)) - 1))"
    using fast ne nosim
    by (simp add: genOne_eq generateNoDuplicatePassword_eq Let_def filter_neq_remove1[OF d])
  moreover have "length (remove1 ?c (effCharset s)) = length (effCharset s) - 1"
    using mem' by (simp add: length_remove1)
  ultimately show ?thesis using mem mem' d by blast
qed

lemma genOne_props:
  assumes pre: "preflight s = Inr u" and res: "genOne rs k s = (Inr pw, k')"
  shows "noDuplicate s \<longrightarrow> distinct pw"
    and "includeSymbols s \<longrightarrow> int (symCount (symbolsSetOf s) pw) \<le> ceilTenth (lengthS s)"
    and "1 \<le> lengthS s \<longrightarrow> (usesFastPath s \<longrightarrow> lengthS s \<le> int (length (effCharset s)))
           \<longrightarrow> int (length pw) = lengthS s"
proof -
  note ne = eff_nonempty[OF pre res]
  have "(noDuplicate s \<longrightarrow> distinct pw)
      \<and> (includeSymbols s \<longrightarrow> int (symCount (symbolsSetOf s) pw) \<le> ceilTenth (lengthS s))
      \<and> (1 \<le> lengthS s \<longrightarrow> (usesFastPath s \<longrightarrow> lengthS s \<le> int (length (effCharset s)))
           \<longrightarrow> int (length pw) = lengthS s)"
  proof (cases "usesFastPath s")
    case True
    then have nosym: "\<not> includeSymbols s"
      by (simp add: usesFastPath_def symbolsSetOf_empty_iff)
    from fast_result[OF True ne(2), of rs k] ne(1) obtain c where
      c: "genOne rs k s =
           (Inr (c # slice0 (shuffled rs (Suc k) (remove1 c (effCharset s))) (lengthS s - 1)),
            Suc k + (length (remove1 c (effCharset s)) - 1))"
        "c \<in> set (effCharset s)"
        "length (remove1 c (effCharset s)) = length (effCharset s) - 1"
        "distinct (effCharset s)"
      by blast
    from c(1) res have pw: "pw = c # slice0 (shuffled rs (Suc k) (remove1 c (effCharset s))) (lengthS s - 1)"
      by simp
    have "distinct pw"
      unfolding pw using noDup_fast_distinct[OF c(4), of c rs "Suc k" "lengthS s - 1"]
      by (simp add: filter_neq_remove1[OF c(4)])
    moreover have "1 \<le> lengthS s \<longrightarrow> lengthS s \<le> int (length (effCharset s)) \<longrightarrow> int (length pw) = lengthS s"
      unfolding pw using c(3) by (auto simp: slice0_def length_shuffled)
    ultimately show ?thesis using nosym True by simp
  next
    case False
    with res ne have gp: "generalPath rs k (lengthS s) (effCharset s) (effFirstCharPool s)
             (noDuplicate s) (noSequential s) (symbolsSetOf s) = (Inr pw, k')"
      by (simp add: genOne_eq split: if_splits)
    from generalPath_ok[OF ne gp] False
    show ?thesis
      by (auto simp: symbolsSetOf_empty_iff ceilTenth_def)
  qed
  then show "noDuplicate s \<longrightarrow> distinct pw"
    and "includeSymbols s \<longrightarrow> int (symCount (symbolsSetOf s) pw) \<le> ceilTenth (lengthS s)"
    and "1 \<le> lengthS s \<longrightarrow> (usesFastPath s \<longrightarrow> lengthS s \<le> int (length (effCharset s)))
           \<longrightarrow> int (length pw) = lengthS s"
    by simp_all
qed

lemma genOne_fast_succeeds:
  assumes "usesFastPath s" "preflight s = Inr u"
  shows "\<exists>pw k'. genOne rs k s = (Inr pw, k')"
proof -
  from assms(1) have nosym: "\<not> includeSymbols s"
    by (simp add: usesFastPath_def symbolsSetOf_empty_iff)
  from preflight_ok[OF assms(2)] have "firstCharPoolOf s \<noteq> []" by simp
  from effFirstCharPool_nonempty[OF nosym this] have ne: "effFirstCharPool s \<noteq> []" .
  from fast_result[OF assms(1) ne, of rs k] effCharset_nonempty[OF ne]
  show ?thesis by blast
qed

lemma generateLoop_props:
  "generateLoop rs k n s acc = (pws, e) \<Longrightarrow>
     (\<forall>pw \<in> set pws. pw \<in> set acc \<or> (\<exists>k0 k1. genOne rs k0 s = (Inr pw, k1)))
     \<and> (e = None \<longrightarrow> length pws = length acc + n)
     \<and> length pws \<le> length acc + n
     \<and> ((\<forall>k0. \<exists>pw k1. genOne rs k0 s = (Inr pw, k1)) \<longrightarrow> e = None)"
proof (induction n arbitrary: k acc)
  case 0
  then show ?case by auto
next
  case (Suc n)
  obtain r k1 where g: "genOne rs k s = (r, k1)" by (cases "genOne rs k s")
  show ?case
  proof (cases r)
    case (Inl err)
    with g Suc.prems show ?thesis
      by (auto simp: genOne_def) (metis Inl_Inr_False prod.inject)
  next
    case (Inr pw)
    with g Suc.prems have "generateLoop rs k1 n s (acc @ [pw]) = (pws, e)"
      by (simp add: genOne_def)
    from Suc.IH[OF this] g Inr show ?thesis by auto
  qed
qed

lemma generateLoop_mem:
  assumes "generateLoop rs k n s [] = (pws, e)" "pw \<in> set pws"
  shows "\<exists>k0 k1. genOne rs k0 s = (Inr pw, k1)"
proof -
  from generateLoop_props[OF assms(1)]
  have "\<forall>pw \<in> set pws. pw \<in> set [] \<or> (\<exists>k0 k1. genOne rs k0 s = (Inr pw, k1))"
    by (rule conjunct1)
  with assms(2) show ?thesis by simp
qed

lemma generateLoop_length:
  assumes "generateLoop rs k n s [] = (pws, e)"
  shows "e = None \<longrightarrow> length pws = n" "length pws \<le> n"
    "(\<forall>k0. \<exists>pw k1. genOne rs k0 s = (Inr pw, k1)) \<longrightarrow> e = None"
  using generateLoop_props[OF assms] by simp_all

subsection \<open>Errors and the number of draws\<close>

lemma isValidChar_err:
  "isValidChar ch prevChar usedChars symbolsSet symbolCount maxSymbols noSeq = Inl e \<Longrightarrow> e = TypeError"
  by (auto simp: isValidChar_def split: if_splits jsval.splits)

lemma fastPath_err:
  "fst (fastPath rs k n charset prevChar usedChars symbolsSet symbolCount maxSymbols noSeq) = Inl e
     \<Longrightarrow> e = TypeError"
proof (induction n arbitrary: k)
  case 0
  then show ?case by simp
next
  case (Suc n)
  then show ?case
    by (auto simp: Let_def split: sum.splits bool.splits dest: isValidChar_err)
qed



lemma slowPath_err:
  "fst (slowPath rs k charset prevChar usedChars symbolsSet symbolCount maxSymbols noSeq) \<noteq> Inl e"
  by (simp add: slowPath_def scanValid_filter)


lemma getValidChar_err:
  "fst (getValidChar rs k charset prevChar usedChars symbolsSet symbolCount maxSymbols noSeq) = Inl e
     \<Longrightarrow> e = TypeError"
proof -
  assume a: "fst (getValidChar rs k charset prevChar usedChars symbolsSet symbolCount maxSymbols noSeq) = Inl e"
  obtain r k1 where f: "fastPath rs k 5 charset prevChar usedChars symbolsSet symbolCount maxSymbols noSeq = (r, k1)"
    by (cases "fastPath rs k 5 charset prevChar usedChars symbolsSet symbolCount maxSymbols noSeq")
  from fastPath_err[of rs k 5 charset prevChar usedChars symbolsSet symbolCount maxSymbols noSeq] f
  have fe: "r = Inl e \<Longrightarrow> e = TypeError" by simp
  from a f fe slowPath_err[of rs k charset prevChar usedChars symbolsSet symbolCount maxSymbols noSeq e]
    slowPath_err[of rs k1 charset prevChar usedChars symbolsSet symbolCount maxSymbols noSeq e]
  show ?thesis
    by (auto simp: getValidChar_def split: if_splits sum.splits option.splits)
qed


lemma fillRest_err:
  "fst (fillRest rs k n i charset noDup noSeq symbolsSet2 maxSymbols arr usedChars symbolCount) = Inl e
     \<Longrightarrow> e = TypeError \<or> (\<exists>p. e = CharacterExhaustionError p)"
proof (induction n arbitrary: k i arr usedChars symbolCount)
  case 0
  then show ?case by simp
next
  case (Suc n)
  let ?g = "getValidChar rs k charset (arr_at arr (i - 1)) usedChars symbolsSet2 symbolCount maxSymbols noSeq"
  obtain r k1 where g: "?g = (r, k1)" by (cases ?g)
  show ?case
  proof (cases r)
    case (Inl e')
    with g Suc.prems getValidChar_err[of rs k charset "arr_at arr (i - 1)" usedChars symbolsSet2 symbolCount maxSymbols noSeq e']
    show ?thesis by simp
  next
    case (Inr v)
    show ?thesis
    proof (cases "v = Null")
      case True
      with Inr g Suc.prems show ?thesis by auto
    next
      case False
      let ?arr = "arr_set arr i v"
      let ?used = "if noDup then map_option (\<lambda>U. set_add U v) usedChars else usedChars"
      let ?cnt = "if (case symbolsSet2 of None \<Rightarrow> False | Some S \<Rightarrow> set_has S v)
             then symbolCount + 1 else symbolCount"
      from False Inr g have eq: "fillRest rs k (Suc n) i charset noDup noSeq symbolsSet2 maxSymbols arr usedChars symbolCount
         = fillRest rs k1 n (i + 1) charset noDup noSeq symbolsSet2 maxSymbols ?arr ?used ?cnt"
        by (cases v) auto
      from Suc.prems Suc.IH[of k1 "i + 1" ?arr ?used ?cnt] show ?thesis
        unfolding eq by simp
    qed
  qed
qed


lemma generalPath_err:
  assumes "fst (generalPath rs k len charset firstCharPool noDup noSeq symbolsSet) = Inl e"
  shows "e = RangeError \<or> e = TypeError \<or> e = StartCharExhaustionError
         \<or> (\<exists>p. e = CharacterExhaustionError p)"
proof (cases "len < 0 \<or> 4294967295 < len")
  case True
  with assms show ?thesis by (auto simp: generalPath_def)
next
  case False
  let ?Q = "if symbolsSet \<noteq> [] then enat (nat (ceilTenth len)) else \<infinity>"
  let ?S = "if symbolsSet \<noteq> [] then Some (newSet symbolsSet) else None"
  let ?U0 = "if noDup then Some [] else None"
  let ?g = "getValidChar rs k firstCharPool Null ?U0 ?S 0 ?Q noSeq"
  obtain r k1 where g: "?g = (r, k1)" by (cases ?g)
  show ?thesis
  proof (cases r)
    case (Inl e')
    with g getValidChar_err[of rs k firstCharPool Null ?U0 ?S 0 ?Q noSeq e']
    have "e' = TypeError" by simp
    with False Inl g assms show ?thesis by (simp add: generalPath_def Let_def)
  next
    case (Inr v)
    show ?thesis
    proof (cases "v = Null")
      case True
      with False Inr g assms show ?thesis by (simp add: generalPath_def Let_def)
    next
      case nn: False
      let ?f = "fillRest rs k1 (nat (len - 1)) 1 charset noDup noSeq ?S ?Q
                    (arr_set (replicate (nat len) Undefined) 0 v)
                    (if noDup then map_option (\<lambda>U. set_add U v) ?U0 else ?U0)
                    (if (case ?S of None \<Rightarrow> False | Some S \<Rightarrow> set_has S v) then 1 else 0)"
      have "fst ?f = Inl e"
        using False Inr g nn assms
        by (cases v) (auto simp: generalPath_def Let_def split: prod.splits sum.splits)
      from fillRest_err[OF this] show ?thesis by blast
    qed
  qed
qed



subsection \<open>A failing position ends the password\<close>

lemma fillRest_step:
  assumes "getValidChar rs k charset (arr_at arr (i - 1)) usedChars symbolsSet2 symbolCount maxSymbols noSeq = (Inr v, k1)"
    and "v \<noteq> Null"
  shows "fillRest rs k (Suc n) i charset noDup noSeq symbolsSet2 maxSymbols arr usedChars symbolCount
         = fillRest rs k1 n (i + 1) charset noDup noSeq symbolsSet2 maxSymbols (arr_set arr i v)
             (if noDup then map_option (\<lambda>U. set_add U v) usedChars else usedChars)
             (if (case symbolsSet2 of None \<Rightarrow> False | Some S \<Rightarrow> set_has S v)
              then symbolCount + 1 else symbolCount)"
  using assms by (cases v) auto

lemma fillRest_null:
  assumes "getValidChar rs k charset (arr_at arr (i - 1)) usedChars symbolsSet2 symbolCount maxSymbols noSeq = (Inr Null, k1)"
  shows "fillRest rs k (Suc n) i charset noDup noSeq symbolsSet2 maxSymbols arr usedChars symbolCount
         = (Inl (CharacterExhaustionError (i + 1)), k1)"
  using assms by simp

lemma fillRest_error:
  assumes "getValidChar rs k charset (arr_at arr (i - 1)) usedChars symbolsSet2 symbolCount maxSymbols noSeq = (Inl e, k1)"
  shows "fillRest rs k (Suc n) i charset noDup noSeq symbolsSet2 maxSymbols arr usedChars symbolCount
         = (Inl e, k1)"
  using assms by simp

lemma fillRest_add:
  "fillRest rs k m i charset noDup noSeq symbolsSet2 maxSymbols arr usedChars symbolCount
     = (Inr (arr', used', cnt'), k1) \<Longrightarrow>
   fillRest rs k (m + n) i charset noDup noSeq symbolsSet2 maxSymbols arr usedChars symbolCount
     = fillRest rs k1 n (i + m) charset noDup noSeq symbolsSet2 maxSymbols arr' used' cnt'"
proof (induction m arbitrary: k i arr usedChars symbolCount)
  case 0
  then show ?case by simp
next
  case (Suc m)
  let ?g = "getValidChar rs k charset (arr_at arr (i - 1)) usedChars symbolsSet2 symbolCount maxSymbols noSeq"
  obtain r k0 where g: "?g = (r, k0)" by (cases ?g)
  show ?case
  proof (cases r)
    case (Inl e)
    with g Suc.prems show ?thesis by (simp add: fillRest_error)
  next
    case (Inr v)
    show ?thesis
    proof (cases "v = Null")
      case True
      with Inr g Suc.prems show ?thesis by (simp add: fillRest_null)
    next
      case False
      from g Inr have g': "?g = (Inr v, k0)" by simp
      let ?arr = "arr_set arr i v"
      let ?used = "if noDup then map_option (\<lambda>U. set_add U v) usedChars else usedChars"
      let ?cnt = "if (case symbolsSet2 of None \<Rightarrow> False | Some S \<Rightarrow> set_has S v)
             then symbolCount + 1 else symbolCount"
      from Suc.prems have "fillRest rs k0 m (i + 1) charset noDup noSeq symbolsSet2 maxSymbols ?arr ?used ?cnt
          = (Inr (arr', used', cnt'), k1)"
        unfolding fillRest_step[OF g' False] .
      from Suc.IH[OF this]
      have "fillRest rs k0 (m + n) (i + 1) charset noDup noSeq symbolsSet2 maxSymbols ?arr ?used ?cnt
          = fillRest rs k1 n (i + 1 + m) charset noDup noSeq symbolsSet2 maxSymbols arr' used' cnt'" .
      moreover have "fillRest rs k (Suc m + n) i charset noDup noSeq symbolsSet2 maxSymbols arr usedChars symbolCount
          = fillRest rs k0 (m + n) (i + 1) charset noDup noSeq symbolsSet2 maxSymbols ?arr ?used ?cnt"
        using fillRest_step[OF g' False, of "m + n" noDup] by simp
      moreover have "i + 1 + m = i + Suc m" by simp
      ultimately show ?thesis by (simp only:)
    qed
  qed
qed

lemma fillRest_later_null:
  assumes ok: "fillRest rs k m i charset noDup noSeq symbolsSet2 maxSymbols arr usedChars symbolCount
     = (Inr (arr', used', cnt'), k1)"
    and nul: "getValidChar rs k1 charset (arr_at arr' (i + m - 1)) used' symbolsSet2 cnt' maxSymbols noSeq
       = (Inr Null, k2)"
  shows "fillRest rs k (m + Suc n) i charset noDup noSeq symbolsSet2 maxSymbols arr usedChars symbolCount
     = (Inl (CharacterExhaustionError (i + m + 1)), k2)"
  unfolding fillRest_add[OF ok] using fillRest_null[OF nul] .

lemma generalPath_first:
  assumes "0 \<le> len" "len \<le> 4294967295"
    and "getValidChar rs k firstCharPool Null (if noDup then Some [] else None)
           (symbolsSet2Of symbols) 0
           (if symbols \<noteq> [] then enat (nat (ceilTenth len)) else \<infinity>) noSeq = (Inr v, k0)"
    and "v \<noteq> Null"
  shows "generalPath rs k len charset firstCharPool noDup noSeq symbols =
     (case fillRest rs k0 (nat (len - 1)) 1 charset noDup noSeq (symbolsSet2Of symbols)
             (if symbols \<noteq> [] then enat (nat (ceilTenth len)) else \<infinity>)
             (arr_set (replicate (nat len) Undefined) 0 v)
             (if noDup then Some (set_add [] v) else None)
             (if (case symbolsSet2Of symbols of None \<Rightarrow> False | Some S \<Rightarrow> set_has S v)
              then 1 else 0) of
        (Inl e, k'') \<Rightarrow> (Inl e, k'')
      | (Inr (arr, used, cnt), k'') \<Rightarrow> (Inr (join arr), k''))"
proof -
  from assms(1,2) have r: "\<not> (len < 0 \<or> 4294967295 < len)" by simp
  from assms(4) obtain c where "v = Undefined \<or> v = Chr c" by (cases v) auto
  then show ?thesis
    using assms(3) unfolding generalPath_def Let_def symbolsSet2Of_def if_not_P[OF r]
    by (auto simp: set_add_def)
qed

lemma generalPath_later_null:
  assumes len: "0 \<le> len" "len \<le> 4294967295"
    and first: "getValidChar rs k firstCharPool Null (if noDup then Some [] else None)
           (symbolsSet2Of symbols) 0
           (if symbols \<noteq> [] then enat (nat (ceilTenth len)) else \<infinity>) noSeq = (Inr v, k0)"
      "v \<noteq> Null"
    and ok: "fillRest rs k0 m 1 charset noDup noSeq (symbolsSet2Of symbols)
             (if symbols \<noteq> [] then enat (nat (ceilTenth len)) else \<infinity>)
             (arr_set (replicate (nat len) Undefined) 0 v)
             (if noDup then Some (set_add [] v) else None)
             (if (case symbolsSet2Of symbols of None \<Rightarrow> False | Some S \<Rightarrow> set_has S v)
              then 1 else 0) = (Inr (arr, used, cnt), k1)"
    and more: "int m < len - 1"
    and nul: "getValidChar rs k1 charset (arr_at arr m) used (symbolsSet2Of symbols) cnt
             (if symbols \<noteq> [] then enat (nat (ceilTenth len)) else \<infinity>) noSeq = (Inr Null, k2)"
  shows "generalPath rs k len charset firstCharPool noDup noSeq symbols
           = (Inl (CharacterExhaustionError (m + 2)), k2)"
proof -
  from more obtain n where n: "nat (len - 1) = m + Suc n"
  proof -
    from more have "m < nat (len - 1)" by simp
    then obtain n where "nat (len - 1) = Suc (m + n)" by (auto dest: less_imp_Suc_add)
    then have "nat (len - 1) = m + Suc n" by simp
    then show ?thesis by (rule that)
  qed
  from nul have nul': "getValidChar rs k1 charset (arr_at arr (1 + m - 1)) used (symbolsSet2Of symbols) cnt
             (if symbols \<noteq> [] then enat (nat (ceilTenth len)) else \<infinity>) noSeq = (Inr Null, k2)"
    by simp
  from fillRest_later_null[OF ok nul', of n]
  show ?thesis
    unfolding generalPath_first[OF len first] n by simp
qed

lemma generateSinglePassword_general:
  assumes "\<not> (noDup \<and> \<not> noSeq \<and> symbols = [])"
    and "noSim \<longrightarrow> filterSimilarChars charset0 similarChars \<noteq> []
                 \<and> filterSimilarChars firstCharPool0 similarChars \<noteq> []"
  shows "generateSinglePassword rs k len charset0 firstCharPool0 noSim noDup noSeq symbols
     = generalPath rs k len
         (if noSim then filterSimilarChars charset0 similarChars else charset0)
         (if noSim then filterSimilarChars firstCharPool0 similarChars else firstCharPool0)
         noDup noSeq symbols"
  using assms by (auto simp: generateSinglePassword_def Let_def)

subsection \<open>When the general path cannot fail\<close>

lemma card_adjacent: "card {c. \<bar>charCode c - charCode p\<bar> = 1} \<le> 2"
proof -
  have sub: "{c. \<bar>charCode c - charCode p\<bar> = 1}
          \<subseteq> {char_of (charCode p + 1), char_of (charCode p - 1)}"
  proof
    fix c assume "c \<in> {c. \<bar>charCode c - charCode p\<bar> = 1}"
    then have "charCode c = charCode p + 1 \<or> charCode c = charCode p - 1" by auto
    moreover have "char_of (charCode c) = c" by (simp add: charCode_def)
    ultimately show "c \<in> {char_of (charCode p + 1), char_of (charCode p - 1)}"
      by (metis insertCI)
  qed
  have "card {c. \<bar>charCode c - charCode p\<bar> = 1}
          \<le> card {char_of (charCode p + 1), char_of (charCode p - 1)}"
    by (rule card_mono[OF _ sub]) simp
  also have "\<dots> \<le> 2" by (simp add: card_insert_if)
  finally show ?thesis .
qed

lemma exists_not_rejected:
  assumes inv: "genInv noDup symbols maxSymbols cs usedChars symbolCount"
    and many: "(if noDup then length cs else 0) + (if noSeq then 2 else 0)
                 < card (set charset - set symbols)"
  shows "\<exists>c \<in> set charset. \<not> rejected c prevChar usedChars (symbolsSet2Of symbols) symbolCount
                               maxSymbols noSeq"
proof -
  let ?N = "set charset - set symbols"
  let ?A = "if noDup then set cs else {}"
  let ?B = "if noSeq then {c. \<exists>p. prevChar = Chr p \<and> \<bar>charCode c - charCode p\<bar> = 1} else {}"
  have a: "card ?A \<le> (if noDup then length cs else 0)" by (simp add: card_length)
  have b: "card ?B \<le> (if noSeq then 2 else 0)"
  proof (cases prevChar)
    case (Chr p)
    then show ?thesis using card_adjacent[of p] by simp
  qed simp_all
  have fin: "finite ?A" "finite ?B"
  proof -
    show "finite ?A" by simp
    have "finite {c. \<exists>p. prevChar = Chr p \<and> \<bar>charCode c - charCode p\<bar> = 1}"
      by (rule finite_subset[of _ UNIV]) simp_all
    then show "finite ?B" by simp
  qed
  have "card (?A \<union> ?B) \<le> card ?A + card ?B" by (rule card_Un_le)
  with a b many have lt: "card (?A \<union> ?B) < card ?N" by linarith
  have "\<not> ?N \<subseteq> ?A \<union> ?B"
  proof
    assume "?N \<subseteq> ?A \<union> ?B"
    then have "card ?N \<le> card (?A \<union> ?B)" using fin by (intro card_mono) simp_all
    with lt show False by simp
  qed
  then obtain c where c: "c \<in> set charset" "c \<notin> set symbols" "c \<notin> ?A" "c \<notin> ?B" by blast
  have u: "(case usedChars of None \<Rightarrow> False | Some U \<Rightarrow> Chr c \<in> set U) = False"
  proof (cases noDup)
    case True
    with inv obtain U where "usedChars = Some U" "set U = Chr ` set cs" by (auto simp: genInv_def)
    with c(3) True show ?thesis by auto
  next
    case False
    with inv have "usedChars = None" by (simp add: genInv_def)
    then show ?thesis by simp
  qed
  have s: "(case symbolsSet2Of symbols of None \<Rightarrow> False
             | Some S \<Rightarrow> Chr c \<in> set S \<and> maxSymbols \<le> enat symbolCount) = False"
    using c(2) by (auto simp: symbolsSet2Of_def set_newSet)
  have q: "\<not> (noSeq \<and> (\<exists>p. prevChar = Chr p \<and> \<bar>charCode c - charCode p\<bar> = 1))"
    using c(4) by auto
  from u s q have "\<not> rejected c prevChar usedChars (symbolsSet2Of symbols) symbolCount maxSymbols noSeq"
    unfolding rejected_def by simp
  with c(1) show ?thesis by blast
qed

lemma fillRest_succeeds:
  assumes "charset \<noteq> []"
  shows "cs \<noteq> [] \<Longrightarrow> genInv noDup symbols maxSymbols cs usedChars symbolCount \<Longrightarrow>
     (if noDup then length cs + n else 1) + (if noSeq then 2 else 0)
        \<le> card (set charset - set symbols) \<Longrightarrow>
     \<exists>r k'. fillRest rs k n (length cs) charset noDup noSeq (symbolsSet2Of symbols) maxSymbols
        (map Chr cs @ replicate n Undefined) usedChars symbolCount = (Inr r, k')"
proof (induction n arbitrary: cs usedChars symbolCount k)
  case 0
  show ?case by simp
next
  case (Suc n)
  let ?prev = "Chr (last cs)"
  have many: "(if noDup then length cs else 0) + (if noSeq then 2 else 0)
                 < card (set charset - set symbols)"
    using Suc.prems(3) by (auto split: if_splits)
  from exists_not_rejected[OF Suc.prems(2) many, of ?prev]
  have ne: "filter (\<lambda>c. \<not> rejected c ?prev usedChars (symbolsSet2Of symbols) symbolCount maxSymbols noSeq)
              charset \<noteq> []"
    by (simp add: filter_empty_conv)
  from getValidChar_cases[OF assms, of ?prev usedChars "symbolsSet2Of symbols" symbolCount maxSymbols noSeq rs k] ne
  obtain c k1 where
    g: "getValidChar rs k charset ?prev usedChars (symbolsSet2Of symbols) symbolCount maxSymbols noSeq = (Inr (Chr c), k1)"
    and ok: "\<not> rejected c ?prev usedChars (symbolsSet2Of symbols) symbolCount maxSymbols noSeq"
    by blast
  let ?used = "if noDup then map_option (\<lambda>U. set_add U (Chr c)) usedChars else usedChars"
  let ?cnt = "if (case symbolsSet2Of symbols of None \<Rightarrow> False | Some S \<Rightarrow> set_has S (Chr c))
            then symbolCount + 1 else symbolCount"
  have inv': "genInv noDup symbols maxSymbols (cs @ [c]) ?used ?cnt"
    by (rule genInv_step[OF Suc.prems(2) ok])
  have b': "(if noDup then length (cs @ [c]) + n else 1) + (if noSeq then 2 else 0)
        \<le> card (set charset - set symbols)"
    using Suc.prems(3) by (auto split: if_splits)
  from Suc.IH[OF _ inv' b', of k1] obtain r k' where
    rec: "fillRest rs k1 n (length (cs @ [c])) charset noDup noSeq (symbolsSet2Of symbols) maxSymbols
        (map Chr (cs @ [c]) @ replicate n Undefined) ?used ?cnt = (Inr r, k')"
    by auto
  have g': "getValidChar rs k charset
              (arr_at (map Chr cs @ replicate (Suc n) Undefined) (length cs - 1))
              usedChars (symbolsSet2Of symbols) symbolCount maxSymbols noSeq = (Inr (Chr c), k1)"
    using g Suc.prems(1) by (simp add: arr_at_last del: replicate_Suc)
  have "fillRest rs k (Suc n) (length cs) charset noDup noSeq (symbolsSet2Of symbols) maxSymbols
        (map Chr cs @ replicate (Suc n) Undefined) usedChars symbolCount = (Inr r, k')"
    using fillRest_step[OF g', where n = n and noDup = noDup] rec
    by (simp add: arr_set_next del: replicate_Suc fillRest.simps)
  then show ?case by blast
qed

lemma ceilTenth_pos: "1 \<le> len \<Longrightarrow> 1 \<le> ceilTenth len"
  unfolding ceilTenth_def by linarith

lemma first_position_ok:
  assumes fp: "firstCharPool \<noteq> []" and len: "1 \<le> len"
  shows "\<exists>c k0. getValidChar rs k firstCharPool Null (if noDup then Some [] else None)
                  (symbolsSet2Of symbols) 0
                  (if symbols \<noteq> [] then enat (nat (ceilTenth len)) else \<infinity>) noSeq
                = (Inr (Chr c), k0)
           \<and> \<not> rejected c Null (if noDup then Some [] else None) (symbolsSet2Of symbols) 0
                  (if symbols \<noteq> [] then enat (nat (ceilTenth len)) else \<infinity>) noSeq"
proof -
  let ?Q = "if symbols \<noteq> [] then enat (nat (ceilTenth len)) else \<infinity>"
  let ?U0 = "if noDup then Some [] else None"
  from ceilTenth_pos[OF len] have q: "\<not> ?Q \<le> enat 0"
    by (auto simp: enat_0_iff)
  then have "\<not> rejected (hd firstCharPool) Null ?U0 (symbolsSet2Of symbols) 0 ?Q noSeq"
    by (auto simp: rejected_def split: option.splits)
  with fp have ne: "filter (\<lambda>c. \<not> rejected c Null ?U0 (symbolsSet2Of symbols) 0 ?Q noSeq)
                     firstCharPool \<noteq> []"
    by (auto simp: filter_empty_conv intro: bexI[of _ "hd firstCharPool"])
  from getValidChar_cases[OF fp, of Null ?U0 "symbolsSet2Of symbols" 0 ?Q noSeq rs k] ne
  show ?thesis by blast
qed

lemma generalPath_succeeds:
  assumes cs: "charset \<noteq> []" and fp: "firstCharPool \<noteq> []"
    and len: "1 \<le> len" "len \<le> 4294967295"
    and many: "(if noDup then nat len else 1) + (if noSeq then 2 else 0)
                 \<le> card (set charset - set symbols)"
  shows "\<exists>pw k'. generalPath rs k len charset firstCharPool noDup noSeq symbols = (Inr pw, k')"
proof -
  let ?Q = "if symbols \<noteq> [] then enat (nat (ceilTenth len)) else \<infinity>"
  let ?U0 = "if noDup then Some [] else None"
  from first_position_ok[OF fp len(1), of rs k noDup symbols noSeq] obtain c k0 where
    g: "getValidChar rs k firstCharPool Null ?U0 (symbolsSet2Of symbols) 0 ?Q noSeq = (Inr (Chr c), k0)"
    and ok: "\<not> rejected c Null ?U0 (symbolsSet2Of symbols) 0 ?Q noSeq"
    by blast
  let ?used = "if noDup then map_option (\<lambda>U. set_add U (Chr c)) ?U0 else ?U0"
  let ?cnt = "if (case symbolsSet2Of symbols of None \<Rightarrow> False | Some S \<Rightarrow> set_has S (Chr c))
              then 1 else 0"
  have inv1: "genInv noDup symbols ?Q ([] @ [c]) ?used ?cnt"
    using genInv_step[OF genInv_init ok] by (simp cong: if_cong)
  have u: "?used = (if noDup then Some (set_add [] (Chr c)) else None)" by simp
  have b: "(if noDup then length [c] + nat (len - 1) else 1) + (if noSeq then 2 else 0)
             \<le> card (set charset - set symbols)"
    using many len(1) by (auto split: if_splits simp: nat_diff_distrib')
  from fillRest_succeeds[OF cs _ _ b, where maxSymbols = ?Q and usedChars = ?used
      and symbolCount = ?cnt and rs = rs and k = k0] inv1
  obtain r k' where
    fr: "fillRest rs k0 (nat (len - 1)) (length [c]) charset noDup noSeq (symbolsSet2Of symbols) ?Q
           (map Chr [c] @ replicate (nat (len - 1)) Undefined) ?used ?cnt = (Inr r, k')"
    by auto
  have l0: "0 \<le> len" using len(1) by simp
  have nn: "Chr c \<noteq> Null" by simp
  obtain arr used cnt where r: "r = (arr, used, cnt)" by (cases r)
  from fr r show ?thesis
    unfolding generalPath_first[OF l0 len(2) g nn] u
    by (simp add: arr_set_first)
qed

lemma genOne_general_succeeds:
  assumes nf: "\<not> usesFastPath s" and len: "1 \<le> lengthS s" "lengthS s \<le> 4294967295"
    and fp: "effFirstCharPool s \<noteq> []" and fc: "freeChoice s"
  shows "\<exists>pw k'. genOne rs k s = (Inr pw, k')"
proof -
  from effCharset_nonempty[OF fp] have cs: "effCharset s \<noteq> []" .
  from fc have many: "(if noDuplicate s then nat (lengthS s) else 1) + (if noSequential s then 2 else 0)
                 \<le> card (set (effCharset s) - set (symbolsSetOf s))"
    by (simp add: freeChoice_def)
  from generalPath_succeeds[OF cs fp len many, of rs k]
  show ?thesis using nf cs fp by (simp add: genOne_eq)
qed

lemma effCharset_long:
  assumes "\<not> includeSymbols s" "charsetOf s \<noteq> []"
  shows "8 \<le> length (effCharset s)"
proof -
  have f: "length (filterSimilarChars numbersSet similarChars) = 8"
    "length (filterSimilarChars lowercaseSet similarChars) = 23"
    "length (filterSimilarChars uppercaseSet similarChars) = 24"
    by (simp_all add: filterSimilarChars_def numbersSet_def lowercaseSet_def uppercaseSet_def
          similarChars_def)
  have l: "length numbersSet = 10" "length lowercaseSet = 26" "length uppercaseSet = 26"
    by (simp_all add: numbersSet_def lowercaseSet_def uppercaseSet_def)
  from assms show ?thesis
    unfolding effCharset_def charsetOf_def
    by (cases "includeNumbers s"; cases "includeLowercase s"; cases "includeUppercase s";
        cases "noSimilar s")
       (simp_all add: filterSimilar_append filterSimilar_Nil f l)
qed

lemma freeChoice_nosym:
  assumes ns: "\<not> includeSymbols s" and ne: "charsetOf s \<noteq> []"
    and c: "\<not> noDuplicate s \<or> nat (lengthS s) + 2 \<le> length (effCharset s)"
  shows "freeChoice s"
proof -
  from ns have sy: "symbolsSetOf s = []" by (simp add: symbolsSetOf_empty_iff)
  have "card (set (effCharset s)) = length (effCharset s)"
    using effCharset_distinct[OF ns] by (rule distinct_card)
  with effCharset_long[OF ns ne] c show ?thesis
    by (auto simp: freeChoice_def sy)
qed

subsection \<open>The loops return, with bounded work\<close>















subsection \<open>Failure of the first password\<close>

lemma generateLoop_first_fails:
  "fst (genOne rs k s) = Inl e \<Longrightarrow> generateLoop rs k (Suc n) s acc = (acc, Some e)"
  by (cases "genOne rs k s") (auto simp: genOne_def)

lemma generatePasswords_first_fails:
  assumes "preflight s = Inr u" "nat (amount s) = Suc n" "fst (genOne rs 0 s) = Inl e"
  shows "generatePasswords rs s = ([], Some e)"
  using assms(1,2) generateLoop_first_fails[OF assms(3), of n "[]"]
  by (simp add: generatePasswords_def del: generateLoop.simps)

subsection \<open>The checks do not depend on the similarity option\<close>

lemma symbolsSetOf_noSimilar: "symbolsSetOf (s\<lparr>noSimilar := b\<rparr>) = symbolsSetOf s"
  by (simp add: symbolsSetOf_def)

lemma charsetOf_noSimilar: "charsetOf (s\<lparr>noSimilar := b\<rparr>) = charsetOf s"
  by (simp add: charsetOf_def symbolsSetOf_noSimilar)

lemma firstCharPoolOf_noSimilar: "firstCharPoolOf (s\<lparr>noSimilar := b\<rparr>) = firstCharPoolOf s"
  by (simp add: firstCharPoolOf_def symbolsSetOf_noSimilar charsetOf_noSimilar Let_def cong: if_cong)

lemma preflight_noSimilar: "preflight (s\<lparr>noSimilar := b\<rparr>) = preflight s"
  by (simp add: preflight_def charsetOf_noSimilar firstCharPoolOf_noSimilar)

section \<open>The claims\<close>

text \<open>
  Claim C1 (amended). For settings that pass the checks of \<^verbatim>\<open>generatePasswords\<close>, with a
  positive length and a non-negative amount:
  \<^item> if the loop ends without an error, exactly \<open>amount\<close> passwords are returned;
  \<^item> every returned password of the general selector path has exactly \<open>length\<close>
    characters, and so has every returned password of the shuffle path provided \<open>length\<close>
    is at most the size of the alphabet that is sampled (which the checks guarantee when
    \<^verbatim>\<open>noSimilar\<close> is off);
  \<^item> on the shuffle path the loop never ends with an error;
  \<^item> on the general selector path the loop never ends with an error when \<open>length\<close> is at
    most \<open>2^32 - 1\<close>, the pool of first characters that is sampled is not empty and the
    alphabet that is sampled has enough distinct characters outside the symbol set
    (\<open>freeChoice\<close>): \<open>length\<close> of them with \<^verbatim>\<open>noDuplicate\<close>, one otherwise, and two more
    with \<^verbatim>\<open>noSequential\<close>;
  \<^item> in particular, with symbols off the loop never ends with an error unless
    \<^verbatim>\<open>noDuplicate\<close> and \<^verbatim>\<open>noSequential\<close> are both set (or \<open>length\<close> exceeds \<open>2^32 - 1\<close>).

  As stated, the claim fails: with symbols alone and length 12 the checks pass and the
  third position is exhausted (the quota is 2); with digits, \<^verbatim>\<open>noDuplicate\<close>,
  \<^verbatim>\<open>noSequential\<close> and length 10 the checks pass and the tenth position is exhausted
  for the draws \<open>0, 7, 14, \<dots>\<close>; and with digits, \<^verbatim>\<open>noSimilar\<close>, \<^verbatim>\<open>noDuplicate\<close> and
  length 10 the password returned has 8 characters.
\<close>

theorem batch_shape:
  assumes pre: "preflight s = Inr u" and len: "1 \<le> lengthS s" and am: "0 \<le> amount s"
  shows "(snd (generatePasswords rs s) = None \<longrightarrow>
            int (length (fst (generatePasswords rs s))) = amount s)
       \<and> (\<forall>pw \<in> set (fst (generatePasswords rs s)).
            (usesFastPath s \<longrightarrow> lengthS s \<le> int (length (effCharset s)))
              \<longrightarrow> int (length pw) = lengthS s)
       \<and> (usesFastPath s \<longrightarrow> snd (generatePasswords rs s) = None)
       \<and> (\<not> usesFastPath s \<and> lengthS s \<le> 4294967295 \<and> effFirstCharPool s \<noteq> []
            \<and> freeChoice s \<longrightarrow> snd (generatePasswords rs s) = None)
       \<and> (\<not> includeSymbols s \<and> \<not> (noDuplicate s \<and> noSequential s)
            \<and> lengthS s \<le> 4294967295 \<longrightarrow> snd (generatePasswords rs s) = None)
       \<and> (usesFastPath s \<and> \<not> noSimilar s \<longrightarrow> lengthS s \<le> int (length (effCharset s)))"
proof -
  obtain pws e where gl: "generateLoop rs 0 (nat (amount s)) s [] = (pws, e)"
    by (cases "generateLoop rs 0 (nat (amount s)) s []")
  from pre gl have gp: "generatePasswords rs s = (pws, e)"
    by (simp add: generatePasswords_def)
  have a: "e = None \<longrightarrow> int (length pws) = amount s"
    using generateLoop_length(1)[OF gl] am by auto
  have b: "int (length pw) = lengthS s"
    if "pw \<in> set pws" "usesFastPath s \<longrightarrow> lengthS s \<le> int (length (effCharset s))" for pw
  proof -
    from generateLoop_mem[OF gl that(1)] obtain k0 k1 where "genOne rs k0 s = (Inr pw, k1)"
      by auto
    from genOne_props(3)[OF pre this] len that(2) show ?thesis by simp
  qed
  have c: "usesFastPath s \<longrightarrow> e = None"
  proof
    assume "usesFastPath s"
    then have "\<forall>k0. \<exists>pw k1. genOne rs k0 s = (Inr pw, k1)"
      using genOne_fast_succeeds[OF _ pre] by blast
    with generateLoop_length(3)[OF gl] show "e = None" by simp
  qed
  have g: "e = None"
    if "\<not> usesFastPath s" "lengthS s \<le> 4294967295" "effFirstCharPool s \<noteq> []" "freeChoice s"
  proof -
    have "\<forall>k0. \<exists>pw k1. genOne rs k0 s = (Inr pw, k1)"
      using genOne_general_succeeds[OF that(1) len that(2) that(3) that(4)] by blast
    with generateLoop_length(3)[OF gl] show "e = None" by simp
  qed
  have h: "e = None"
    if "\<not> includeSymbols s" "\<not> (noDuplicate s \<and> noSequential s)" "lengthS s \<le> 4294967295"
  proof (cases "usesFastPath s")
    case True
    with c show ?thesis by simp
  next
    case False
    from that(1) have "symbolsSetOf s = []" by (simp add: symbolsSetOf_empty_iff)
    with False that(2) have nd: "\<not> noDuplicate s" by (auto simp: usesFastPath_def)
    from preflight_ok[OF pre] have ne: "charsetOf s \<noteq> []" "firstCharPoolOf s \<noteq> []" by simp_all
    have fc: "freeChoice s" using freeChoice_nosym[OF that(1) ne(1)] nd by simp
    have fp: "effFirstCharPool s \<noteq> []" by (rule effFirstCharPool_nonempty[OF that(1) ne(2)])
    from g[OF False that(3) fp fc] show ?thesis .
  qed
  have d: "usesFastPath s \<and> \<not> noSimilar s \<longrightarrow> lengthS s \<le> int (length (effCharset s))"
    using preflight_ok[OF pre] by (auto simp: usesFastPath_def effCharset_def)
  from a b c g h d show ?thesis unfolding gp by simp
qed

theorem batch_shape_witness:
  "preflight (onlyNumbers\<lparr>noDuplicate := True, amount := 2\<rparr>) = Inr ()
   \<and> 1 \<le> lengthS (onlyNumbers\<lparr>noDuplicate := True, amount := 2\<rparr>)
   \<and> 0 \<le> amount (onlyNumbers\<lparr>noDuplicate := True, amount := 2\<rparr>)
   \<and> usesFastPath (onlyNumbers\<lparr>noDuplicate := True, amount := 2\<rparr>)
   \<and> generatePasswords id (onlyNumbers\<lparr>noDuplicate := True, amount := 2\<rparr>)
       = ([''0769815432'', ''9026748531''], None)
   \<and> int (length (fst (generatePasswords id (onlyNumbers\<lparr>noDuplicate := True, amount := 2\<rparr>))))
       = amount (onlyNumbers\<lparr>noDuplicate := True, amount := 2\<rparr>)
   \<and> snd (generatePasswords id (onlyNumbers\<lparr>noDuplicate := True, amount := 2\<rparr>)) = None
   \<and> preflight (onlyNumbers\<lparr>amount := 2\<rparr>) = Inr ()
   \<and> \<not> usesFastPath (onlyNumbers\<lparr>amount := 2\<rparr>)
   \<and> \<not> includeSymbols (onlyNumbers\<lparr>amount := 2\<rparr>)
   \<and> generatePasswords id (onlyNumbers\<lparr>amount := 2\<rparr>) = ([''0123456789'', ''0123456789''], None)
   \<and> snd (generatePasswords id (onlyNumbers\<lparr>amount := 2\<rparr>)) = None
   \<and> int (length (fst (generatePasswords id (onlyNumbers\<lparr>amount := 2\<rparr>))))
       = amount (onlyNumbers\<lparr>amount := 2\<rparr>)
   \<and> int (length ''0123456789'') = lengthS (onlyNumbers\<lparr>amount := 2\<rparr>)
   \<and> preflight (onlyNumbers\<lparr>includeSymbols := True, lengthS := 12\<rparr>) = Inr ()
   \<and> \<not> usesFastPath (onlyNumbers\<lparr>includeSymbols := True, lengthS := 12\<rparr>)
   \<and> effFirstCharPool (onlyNumbers\<lparr>includeSymbols := True, lengthS := 12\<rparr>) \<noteq> []
   \<and> freeChoice (onlyNumbers\<lparr>includeSymbols := True, lengthS := 12\<rparr>)
   \<and> generatePasswords ((*) 7) (onlyNumbers\<lparr>includeSymbols := True, lengthS := 12\<rparr>)
       = ([''07+~85296307''], None)
   \<and> snd (generatePasswords ((*) 7) (onlyNumbers\<lparr>includeSymbols := True, lengthS := 12\<rparr>)) = None"
proof -
  let ?s = "onlyNumbers\<lparr>noDuplicate := True, amount := 2\<rparr>"
  let ?g = "onlyNumbers\<lparr>amount := 2\<rparr>"
  let ?h = "onlyNumbers\<lparr>includeSymbols := True, lengthS := 12\<rparr>"
  have s1: "preflight ?s = Inr ()" by code_simp
  have s2: "1 \<le> lengthS ?s" by code_simp
  have s3: "0 \<le> amount ?s" by code_simp
  have s4: "usesFastPath ?s" by code_simp
  have s5: "generatePasswords id ?s = ([''0769815432'', ''9026748531''], None)" by code_simp
  from batch_shape[OF s1 s2 s3, of id] s4
  have s6: "snd (generatePasswords id ?s) = None
        \<and> int (length (fst (generatePasswords id ?s))) = amount ?s"
    by simp
  have g1: "preflight ?g = Inr ()" by code_simp
  have g2: "1 \<le> lengthS ?g" by code_simp
  have g3: "0 \<le> amount ?g" by code_simp
  have g4: "\<not> usesFastPath ?g" by code_simp
  have g5: "\<not> includeSymbols ?g" "\<not> (noDuplicate ?g \<and> noSequential ?g)"
    "lengthS ?g \<le> 4294967295" by code_simp+
  have g6: "generatePasswords id ?g = ([''0123456789'', ''0123456789''], None)" by code_simp
  from batch_shape[OF g1 g2 g3, of id] g4 g5
  have g7: "snd (generatePasswords id ?g) = None
        \<and> int (length (fst (generatePasswords id ?g))) = amount ?g
        \<and> (\<forall>pw \<in> set (fst (generatePasswords id ?g)). int (length pw) = lengthS ?g)"
    by simp
  then have g8: "int (length ''0123456789'') = lengthS ?g" unfolding g6 by simp
  have h1: "preflight ?h = Inr ()" by code_simp
  have h2: "1 \<le> lengthS ?h" by code_simp
  have h3: "0 \<le> amount ?h" by code_simp
  have h4: "\<not> usesFastPath ?h" "lengthS ?h \<le> 4294967295" "effFirstCharPool ?h \<noteq> []"
    "freeChoice ?h" by code_simp+
  have h5: "generatePasswords ((*) 7) ?h = ([''07+~85296307''], None)" by code_simp
  from batch_shape[OF h1 h2 h3, of "(*) 7"] h4
  have h6: "snd (generatePasswords ((*) 7) ?h) = None" by simp
  from s1 s2 s3 s4 s5 s6 g1 g4 g5(1) g6 g7 g8 h1 h4 h5 h6
  show ?thesis by (intro conjI) simp_all
qed

theorem batch_exact_counterexample:
  "preflight (onlyNumbers\<lparr>includeNumbers := False, includeSymbols := True, lengthS := 12\<rparr>) = Inr ()
   \<and> amount (onlyNumbers\<lparr>includeNumbers := False, includeSymbols := True, lengthS := 12\<rparr>) = 1
   \<and> generatePasswords id (onlyNumbers\<lparr>includeNumbers := False, includeSymbols := True, lengthS := 12\<rparr>)
       = ([], Some (CharacterExhaustionError 3))
   \<and> preflight (onlyNumbers\<lparr>noDuplicate := True, noSequential := True\<rparr>) = Inr ()
   \<and> amount (onlyNumbers\<lparr>noDuplicate := True, noSequential := True\<rparr>) = 1
   \<and> generatePasswords ((*) 7) (onlyNumbers\<lparr>noDuplicate := True, noSequential := True\<rparr>)
       = ([], Some (CharacterExhaustionError 10))
   \<and> preflight (onlyNumbers\<lparr>noSimilar := True, noDuplicate := True\<rparr>) = Inr ()
   \<and> lengthS (onlyNumbers\<lparr>noSimilar := True, noDuplicate := True\<rparr>) = 10
   \<and> generatePasswords id (onlyNumbers\<lparr>noSimilar := True, noDuplicate := True\<rparr>)
       = ([''29783654''], None)
   \<and> length ''29783654'' = 8"
  by code_simp



text \<open>
  Claim C3 (amended). With \<^verbatim>\<open>noDuplicate\<close> set, a non-empty alphabet and a non-empty pool
  of first characters, an alphabet from which the similarity filter removes nothing (in
  particular whenever \<^verbatim>\<open>noSimilar\<close> is off), and a length greater than the size of the
  alphabet, generation yields no password and the error carrying the size of the
  alphabet and the length.

  As stated, the claim fails: with no category selected the error is the one for the
  empty alphabet, and with digits, \<^verbatim>\<open>noSimilar\<close> and length 9 the filtered alphabet has
  8 characters, no error is raised and a password is returned.
\<close>

theorem not_enough_unique:
  assumes "noDuplicate s" and "charsetOf s \<noteq> []" and "firstCharPoolOf s \<noteq> []"
    and "effCharset s = charsetOf s" and "int (length (effCharset s)) < lengthS s"
  shows "generatePasswords rs s
           = ([], Some (NotEnoughUniqueCharsError (length (effCharset s)) (lengthS s)))"
  using assms by (simp add: generatePasswords_def preflight_def validateConstraints_def)

theorem not_enough_unique_witness:
  "noDuplicate (onlyNumbers\<lparr>noDuplicate := True, lengthS := 11\<rparr>)
   \<and> charsetOf (onlyNumbers\<lparr>noDuplicate := True, lengthS := 11\<rparr>) \<noteq> []
   \<and> firstCharPoolOf (onlyNumbers\<lparr>noDuplicate := True, lengthS := 11\<rparr>) \<noteq> []
   \<and> effCharset (onlyNumbers\<lparr>noDuplicate := True, lengthS := 11\<rparr>)
       = charsetOf (onlyNumbers\<lparr>noDuplicate := True, lengthS := 11\<rparr>)
   \<and> int (length (effCharset (onlyNumbers\<lparr>noDuplicate := True, lengthS := 11\<rparr>)))
       < lengthS (onlyNumbers\<lparr>noDuplicate := True, lengthS := 11\<rparr>)
   \<and> generatePasswords id (onlyNumbers\<lparr>noDuplicate := True, lengthS := 11\<rparr>)
       = ([], Some (NotEnoughUniqueCharsError 10 11))"
proof -
  let ?s = "onlyNumbers\<lparr>noDuplicate := True, lengthS := 11\<rparr>"
  have h1: "noDuplicate ?s" by code_simp
  have h2: "charsetOf ?s \<noteq> []" by code_simp
  have h3: "firstCharPoolOf ?s \<noteq> []" by code_simp
  have h4: "effCharset ?s = charsetOf ?s" by code_simp
  have h5: "int (length (effCharset ?s)) < lengthS ?s" by code_simp
  have v: "length (effCharset ?s) = 10" "lengthS ?s = 11" by code_simp+
  from not_enough_unique[OF h1 h2 h3 h4 h5, of id] h1 h2 h3 h4 h5 v
  show ?thesis by simp
qed

theorem not_enough_unique_counterexample:
  "noDuplicate (onlyNumbers\<lparr>includeNumbers := False, noDuplicate := True\<rparr>)
   \<and> int (length (effCharset (onlyNumbers\<lparr>includeNumbers := False, noDuplicate := True\<rparr>)))
       < lengthS (onlyNumbers\<lparr>includeNumbers := False, noDuplicate := True\<rparr>)
   \<and> generatePasswords id (onlyNumbers\<lparr>includeNumbers := False, noDuplicate := True\<rparr>)
       = ([], Some EmptyCharsetError)
   \<and> noDuplicate (onlyNumbers\<lparr>noSimilar := True, noDuplicate := True, lengthS := 9\<rparr>)
   \<and> length (effCharset (onlyNumbers\<lparr>noSimilar := True, noDuplicate := True, lengthS := 9\<rparr>)) = 8
   \<and> lengthS (onlyNumbers\<lparr>noSimilar := True, noDuplicate := True, lengthS := 9\<rparr>) = 9
   \<and> generatePasswords id (onlyNumbers\<lparr>noSimilar := True, noDuplicate := True, lengthS := 9\<rparr>)
       = ([''29783654''], None)"
  by code_simp

text \<open>
  Claim C4. The checks before the loop are made in this order: an empty alphabet gives
  \<open>EmptyCharsetError\<close>; otherwise an empty pool of first characters gives
  \<open>EmptyFirstCharPoolError\<close>; otherwise \<^verbatim>\<open>noDuplicate\<close> with a length above the size of
  the alphabet gives \<open>NotEnoughUniqueCharsError\<close> with both values; otherwise the checks
  pass. A failed check ends \<^verbatim>\<open>generatePasswords\<close> with that error and no password.
\<close>

theorem preflight_order:
  "preflight s =
     (if charsetOf s = [] then Inl EmptyCharsetError
      else if firstCharPoolOf s = [] then Inl EmptyFirstCharPoolError
      else if noDuplicate s \<and> int (length (charsetOf s)) < lengthS s
      then Inl (NotEnoughUniqueCharsError (length (charsetOf s)) (lengthS s))
      else Inr ())
   \<and> (preflight s = Inl e \<longrightarrow> generatePasswords rs s = ([], Some e))"
  by (simp add: preflight_def validateConstraints_def generatePasswords_def)

theorem preflight_order_witness:
  "preflight (onlyNumbers\<lparr>includeNumbers := False, noDuplicate := True, lengthS := 11\<rparr>)
     = Inl EmptyCharsetError
   \<and> preflight (onlyNumbers\<lparr>noStartNumber := True, noDuplicate := True, lengthS := 11\<rparr>)
     = Inl EmptyFirstCharPoolError
   \<and> preflight (onlyNumbers\<lparr>noDuplicate := True, lengthS := 11\<rparr>)
     = Inl (NotEnoughUniqueCharsError 10 11)
   \<and> generatePasswords id (onlyNumbers\<lparr>noDuplicate := True, lengthS := 11\<rparr>)
     = ([], Some (NotEnoughUniqueCharsError 10 11))
   \<and> preflight (onlyNumbers\<lparr>noDuplicate := True\<rparr>) = Inr ()"
proof -
  let ?a = "onlyNumbers\<lparr>includeNumbers := False, noDuplicate := True, lengthS := 11\<rparr>"
  let ?b = "onlyNumbers\<lparr>noStartNumber := True, noDuplicate := True, lengthS := 11\<rparr>"
  let ?c = "onlyNumbers\<lparr>noDuplicate := True, lengthS := 11\<rparr>"
  let ?d = "onlyNumbers\<lparr>noDuplicate := True\<rparr>"
  have a: "charsetOf ?a = []" by code_simp
  have b: "charsetOf ?b \<noteq> []" "firstCharPoolOf ?b = []" by code_simp+
  have c: "charsetOf ?c \<noteq> []" "firstCharPoolOf ?c \<noteq> []" "noDuplicate ?c"
    "length (charsetOf ?c) = 10" "lengthS ?c = 11" by code_simp+
  have d: "charsetOf ?d \<noteq> []" "firstCharPoolOf ?d \<noteq> []"
    "length (charsetOf ?d) = 10" "lengthS ?d = 10" by code_simp+
  from preflight_order[of ?a EmptyCharsetError id]
    preflight_order[of ?b EmptyFirstCharPoolError id]
    preflight_order[of ?c "NotEnoughUniqueCharsError 10 11" id]
    preflight_order[of ?d EmptyCharsetError id] a b c d
  show ?thesis by simp
qed

text \<open>
  Claim C5. For a candidate character \<open>c\<close>, previous value \<open>p\<close>, used-set \<open>U\<close> (present
  exactly when duplicates are excluded), symbol string \<open>S\<close>, quota \<open>Q\<close> and symbol count
  \<open>n\<close>, \<^verbatim>\<open>isValidChar\<close> rejects \<open>c\<close> if and only if duplicates are excluded and \<open>c\<close> is in
  \<open>U\<close>, or sequences are excluded and \<open>p\<close> is a character whose code differs from that
  of \<open>c\<close> by one, or \<open>c\<close> is in \<open>S\<close> and \<open>n\<close> has reached \<open>Q\<close>; otherwise it accepts.
\<close>

theorem isValidChar_rejects_iff:
  "isValidChar (Chr c) p (if noDup then Some U else None) (symbolsSet2Of S) n Q noSeq
     = Inr (\<not> ((noDup \<and> Chr c \<in> set U)
               \<or> (noSeq \<and> (\<exists>q. p = Chr q \<and> \<bar>charCode c - charCode q\<bar> = 1))
               \<or> (c \<in> set S \<and> Q \<le> enat n)))"
  by (cases p)
     (auto simp: isValidChar_def symbolRejected_def set_has_def symbolsSet2Of_def set_newSet)

theorem isValidChar_rejects_iff_witness:
  "isValidChar (Chr CHR ''b'') (Chr CHR ''a'') (if True then Some [Chr CHR ''a''] else None)
      (symbolsSet2Of ''!#'') 0 1 True = Inr False
   \<and> isValidChar (Chr CHR ''!'') Null (if False then Some [] else None)
      (symbolsSet2Of ''!#'') 0 1 True = Inr True
   \<and> isValidChar (Chr CHR ''!'') (Chr CHR ''a'') (if False then Some [] else None)
      (symbolsSet2Of ''!#'') 1 1 False = Inr False"
  using isValidChar_rejects_iff[of "CHR ''b''" "Chr CHR ''a''" True "[Chr CHR ''a'']" "''!#''" 0 1 True]
    isValidChar_rejects_iff[of "CHR ''!''" Null False "[]" "''!#''" 0 1 True]
    isValidChar_rejects_iff[of "CHR ''!''" "Chr CHR ''a''" False "[]" "''!#''" 1 1 False]
  by (simp add: charCode_def one_enat_def)

text \<open>
  Claim C6. For a non-empty sampling alphabet: the scan of the slow path yields the
  characters of the alphabet that pass \<^verbatim>\<open>isValidChar\<close>, in order; \<^verbatim>\<open>getValidChar\<close>
  returns \<^verbatim>\<open>null\<close> if and only if that list is empty; otherwise it returns a member of
  that list.

  A \<^verbatim>\<open>null\<close> ends the whole password: in one pass of the loop it ends the loop with the
  error for that position; at the first position it ends the general path with the
  error for the starting character; and when the first position and the next \<open>m\<close>
  positions have been filled and the selection for the following position returns
  \<^verbatim>\<open>null\<close>, the general path returns \<open>CharacterExhaustionError (m + 2)\<close> and no password.
  Outside the shuffle path \<^verbatim>\<open>generateSinglePassword\<close> is the general path on the sampled
  alphabets, so it returns that error; and a password that fails ends the loop of
  \<^verbatim>\<open>generatePasswords\<close> with that error.
\<close>

theorem getValidChar_failure_iff:
  assumes "charset \<noteq> []"
  shows "scanValid charset [] prevChar usedChars symbolsSet symbolCount maxSymbols noSeq
           = Inr (filter (\<lambda>c. isValidChar (Chr c) prevChar usedChars symbolsSet symbolCount
                                 maxSymbols noSeq = Inr True) charset)
       \<and> (fst (getValidChar rs k charset prevChar usedChars symbolsSet symbolCount maxSymbols noSeq)
            = Inr Null
          \<longleftrightarrow> scanValid charset [] prevChar usedChars symbolsSet symbolCount maxSymbols noSeq
                = Inr [])
       \<and> (scanValid charset [] prevChar usedChars symbolsSet symbolCount maxSymbols noSeq \<noteq> Inr []
          \<longrightarrow> (\<exists>valid c. scanValid charset [] prevChar usedChars symbolsSet symbolCount
                             maxSymbols noSeq = Inr valid
                 \<and> c \<in> set valid
                 \<and> fst (getValidChar rs k charset prevChar usedChars symbolsSet symbolCount
                          maxSymbols noSeq) = Inr (Chr c)))
       \<and> (fst (getValidChar rs k charset (arr_at arr (i - 1)) usedChars symbolsSet symbolCount
                 maxSymbols noSeq) = Inr Null
          \<longrightarrow> fst (fillRest rs k (Suc n) i charset noDup noSeq symbolsSet maxSymbols arr
                     usedChars symbolCount) = Inl (CharacterExhaustionError (i + 1)))
       \<and> (0 \<le> len \<and> len \<le> 4294967295
          \<and> fst (getValidChar rs k charset Null (if noDup then Some [] else None)
                   (symbolsSet2Of symbols) 0
                   (if symbols \<noteq> [] then enat (nat (ceilTenth len)) else \<infinity>) noSeq) = Inr Null
          \<longrightarrow> fst (generalPath rs k len restCharset charset noDup noSeq symbols)
                = Inl StartCharExhaustionError)
       \<and> (0 \<le> len \<and> len \<le> 4294967295
          \<and> getValidChar rs k firstCharPool Null (if noDup then Some [] else None)
               (symbolsSet2Of symbols) 0
               (if symbols \<noteq> [] then enat (nat (ceilTenth len)) else \<infinity>) noSeq = (Inr v, k0)
          \<and> v \<noteq> Null
          \<and> fillRest rs k0 m 1 charset noDup noSeq (symbolsSet2Of symbols)
               (if symbols \<noteq> [] then enat (nat (ceilTenth len)) else \<infinity>)
               (arr_set (replicate (nat len) Undefined) 0 v)
               (if noDup then Some (set_add [] v) else None)
               (if (case symbolsSet2Of symbols of None \<Rightarrow> False | Some S \<Rightarrow> set_has S v)
                then 1 else 0) = (Inr (arr1, used1, cnt1), k1)
          \<and> int m < len - 1
          \<and> getValidChar rs k1 charset (arr_at arr1 m) used1 (symbolsSet2Of symbols) cnt1
               (if symbols \<noteq> [] then enat (nat (ceilTenth len)) else \<infinity>) noSeq = (Inr Null, k2)
          \<longrightarrow> generalPath rs k len charset firstCharPool noDup noSeq symbols
                = (Inl (CharacterExhaustionError (m + 2)), k2))
       \<and> (\<not> (noDup \<and> \<not> noSeq \<and> symbols = [])
          \<and> (noSim \<longrightarrow> filterSimilarChars charset0 similarChars \<noteq> []
                        \<and> filterSimilarChars firstCharPool0 similarChars \<noteq> [])
          \<longrightarrow> generateSinglePassword rs k len charset0 firstCharPool0 noSim noDup noSeq symbols
                = generalPath rs k len
                    (if noSim then filterSimilarChars charset0 similarChars else charset0)
                    (if noSim then filterSimilarChars firstCharPool0 similarChars
                     else firstCharPool0)
                    noDup noSeq symbols)
       \<and> (fst (genOne rs k s) = Inl e \<longrightarrow> generateLoop rs k (Suc n) s acc = (acc, Some e))
       \<and> (preflight s = Inr u \<and> nat (amount s) = Suc n \<and> fst (genOne rs 0 s) = Inl e
          \<longrightarrow> generatePasswords rs s = ([], Some e))"
proof -
  let ?P = "\<lambda>c. \<not> rejected c prevChar usedChars symbolsSet symbolCount maxSymbols noSeq"
  have sv: "scanValid charset [] prevChar usedChars symbolsSet symbolCount maxSymbols noSeq
              = Inr (filter ?P charset)"
    by (simp add: scanValid_filter)
  have p1: "scanValid charset [] prevChar usedChars symbolsSet symbolCount maxSymbols noSeq
           = Inr (filter (\<lambda>c. isValidChar (Chr c) prevChar usedChars symbolsSet symbolCount
                                 maxSymbols noSeq = Inr True) charset)"
    by (simp add: scanValid_filter isValidChar_Chr)
  from getValidChar_cases[OF assms, of prevChar usedChars symbolsSet symbolCount maxSymbols noSeq rs k]
  have p2: "(fst (getValidChar rs k charset prevChar usedChars symbolsSet symbolCount maxSymbols noSeq)
            = Inr Null) \<longleftrightarrow> filter ?P charset = []"
    by (auto simp: filter_empty_conv)
  from getValidChar_cases[OF assms, of prevChar usedChars symbolsSet symbolCount maxSymbols noSeq rs k]
  have p3: "filter ?P charset \<noteq> [] \<longrightarrow> (\<exists>c. c \<in> set (filter ?P charset)
                 \<and> fst (getValidChar rs k charset prevChar usedChars symbolsSet symbolCount
                          maxSymbols noSeq) = Inr (Chr c))"
    by auto
  have p4: "fst (getValidChar rs k charset (arr_at arr (i - 1)) usedChars symbolsSet symbolCount
                 maxSymbols noSeq) = Inr Null
          \<longrightarrow> fst (fillRest rs k (Suc n) i charset noDup noSeq symbolsSet maxSymbols arr
                     usedChars symbolCount) = Inl (CharacterExhaustionError (i + 1))"
    by (auto split: prod.splits)
  have p5: "0 \<le> len \<and> len \<le> 4294967295
          \<and> fst (getValidChar rs k charset Null (if noDup then Some [] else None)
                   (symbolsSet2Of symbols) 0
                   (if symbols \<noteq> [] then enat (nat (ceilTenth len)) else \<infinity>) noSeq) = Inr Null
          \<longrightarrow> fst (generalPath rs k len restCharset charset noDup noSeq symbols)
                = Inl StartCharExhaustionError"
    by (auto simp: generalPath_def Let_def symbolsSet2Of_def split: prod.splits)
  have p6: "0 \<le> len \<and> len \<le> 4294967295
          \<and> getValidChar rs k firstCharPool Null (if noDup then Some [] else None)
               (symbolsSet2Of symbols) 0
               (if symbols \<noteq> [] then enat (nat (ceilTenth len)) else \<infinity>) noSeq = (Inr v, k0)
          \<and> v \<noteq> Null
          \<and> fillRest rs k0 m 1 charset noDup noSeq (symbolsSet2Of symbols)
               (if symbols \<noteq> [] then enat (nat (ceilTenth len)) else \<infinity>)
               (arr_set (replicate (nat len) Undefined) 0 v)
               (if noDup then Some (set_add [] v) else None)
               (if (case symbolsSet2Of symbols of None \<Rightarrow> False | Some S \<Rightarrow> set_has S v)
                then 1 else 0) = (Inr (arr1, used1, cnt1), k1)
          \<and> int m < len - 1
          \<and> getValidChar rs k1 charset (arr_at arr1 m) used1 (symbolsSet2Of symbols) cnt1
               (if symbols \<noteq> [] then enat (nat (ceilTenth len)) else \<infinity>) noSeq = (Inr Null, k2)
          \<longrightarrow> generalPath rs k len charset firstCharPool noDup noSeq symbols
                = (Inl (CharacterExhaustionError (m + 2)), k2)"
    using generalPath_later_null[of len rs k firstCharPool noDup symbols noSeq v k0 m charset
        arr1 used1 cnt1 k1 k2]
    by blast
  have p7: "\<not> (noDup \<and> \<not> noSeq \<and> symbols = [])
          \<and> (noSim \<longrightarrow> filterSimilarChars charset0 similarChars \<noteq> []
                        \<and> filterSimilarChars firstCharPool0 similarChars \<noteq> [])
          \<longrightarrow> generateSinglePassword rs k len charset0 firstCharPool0 noSim noDup noSeq symbols
                = generalPath rs k len
                    (if noSim then filterSimilarChars charset0 similarChars else charset0)
                    (if noSim then filterSimilarChars firstCharPool0 similarChars
                     else firstCharPool0)
                    noDup noSeq symbols"
    using generateSinglePassword_general[of noDup noSeq symbols noSim charset0 firstCharPool0 rs k len]
    by blast
  have p8: "fst (genOne rs k s) = Inl e \<longrightarrow> generateLoop rs k (Suc n) s acc = (acc, Some e)"
    using generateLoop_first_fails[of rs k s e n acc] by blast
  have q2: "fst (getValidChar rs k charset prevChar usedChars symbolsSet symbolCount maxSymbols noSeq)
            = Inr Null
          \<longleftrightarrow> scanValid charset [] prevChar usedChars symbolsSet symbolCount maxSymbols noSeq
                = Inr []"
    using p2 by (simp add: sv)
  have q3: "scanValid charset [] prevChar usedChars symbolsSet symbolCount maxSymbols noSeq \<noteq> Inr []
          \<longrightarrow> (\<exists>valid c. scanValid charset [] prevChar usedChars symbolsSet symbolCount
                             maxSymbols noSeq = Inr valid
                 \<and> c \<in> set valid
                 \<and> fst (getValidChar rs k charset prevChar usedChars symbolsSet symbolCount
                          maxSymbols noSeq) = Inr (Chr c))"
    using p3 by (simp add: sv)
  have p9: "preflight s = Inr u \<and> nat (amount s) = Suc n \<and> fst (genOne rs 0 s) = Inl e
          \<longrightarrow> generatePasswords rs s = ([], Some e)"
    using generatePasswords_first_fails[of s u n rs e] by blast
  show ?thesis
    using p1 q2 q3 p4 p5 p6 p7 p8 p9 by (intro conjI) assumption+
qed

theorem getValidChar_failure_iff_witness:
  "''ab'' \<noteq> []
   \<and> scanValid ''ab'' [] (Chr CHR ''a'') (Some [Chr CHR ''a'']) None 0 \<infinity> True = Inr []
   \<and> fst (getValidChar id 0 ''ab'' (Chr CHR ''a'') (Some [Chr CHR ''a'']) None 0 \<infinity> True)
       = Inr Null
   \<and> fst (fillRest id 0 (Suc 0) 1 ''ab'' True True None \<infinity> [Chr CHR ''a'', Undefined]
            (Some [Chr CHR ''a'']) 0) = Inl (CharacterExhaustionError 2)
   \<and> getValidChar id 0 ''!#'' Null None (symbolsSet2Of ''!#'') 0 (enat (nat (ceilTenth 12))) False
       = (Inr (Chr CHR ''!''), 1)
   \<and> fillRest id 1 1 1 ''!#'' False False (symbolsSet2Of ''!#'') (enat (nat (ceilTenth 12)))
         (arr_set (replicate (nat 12) Undefined) 0 (Chr CHR ''!'')) None 1
       = (Inr (Chr CHR ''!'' # Chr CHR ''#'' # replicate 10 Undefined, None, 2), 2)
   \<and> getValidChar id 2 ''!#'' (Chr CHR ''#'') None (symbolsSet2Of ''!#'') 2
         (enat (nat (ceilTenth 12))) False = (Inr Null, 2)
   \<and> generalPath id 0 12 ''!#'' ''!#'' False False ''!#'' = (Inl (CharacterExhaustionError 3), 2)
   \<and> generateSinglePassword id 0 12 ''!#'' ''!#'' False False False ''!#''
       = (Inl (CharacterExhaustionError 3), 2)
   \<and> fst (getValidChar id 0 ''!'' Null None (symbolsSet2Of ''!'') 0 (enat (nat (ceilTenth 0)))
            False) = Inr Null
   \<and> fst (generalPath id 0 0 ''ab'' ''!'' False False ''!'') = Inl StartCharExhaustionError
   \<and> fst (genOne id 0 (onlyNumbers\<lparr>includeNumbers := False, includeSymbols := True,
                           lengthS := 12\<rparr>)) = Inl (CharacterExhaustionError 3)
   \<and> generateLoop id 0 (Suc 0)
        (onlyNumbers\<lparr>includeNumbers := False, includeSymbols := True, lengthS := 12\<rparr>) []
       = ([], Some (CharacterExhaustionError 3))
   \<and> preflight (onlyNumbers\<lparr>includeNumbers := False, includeSymbols := True,
                    lengthS := 12\<rparr>) = Inr ()
   \<and> generatePasswords id
        (onlyNumbers\<lparr>includeNumbers := False, includeSymbols := True, lengthS := 12\<rparr>)
       = ([], Some (CharacterExhaustionError 3))"
proof -
  let ?Q = "enat (nat (ceilTenth 12))"
  let ?S = "symbolsSet2Of ''!#''"
  let ?x = "onlyNumbers\<lparr>includeNumbers := False, includeSymbols := True, lengthS := 12\<rparr>"
  have h: "''ab'' \<noteq> []" by simp
  have h': "''!'' \<noteq> []" by simp
  have sv: "scanValid ''ab'' [] (Chr CHR ''a'') (Some [Chr CHR ''a'']) None 0 \<infinity> True = Inr []"
    by code_simp
  have pv: "arr_at [Chr CHR ''a'', Undefined] (1 - 1) = Chr CHR ''a''" by code_simp
  have a: "fst (getValidChar id 0 ''ab'' (Chr CHR ''a'') (Some [Chr CHR ''a'']) None 0 \<infinity> True)
             = Inr Null
           \<and> fst (fillRest id 0 (Suc 0) 1 ''ab'' True True None \<infinity> [Chr CHR ''a'', Undefined]
                  (Some [Chr CHR ''a'']) 0) = Inl (CharacterExhaustionError 2)"
    using getValidChar_failure_iff[OF h, where prevChar = "Chr CHR ''a''"
      and usedChars = "Some [Chr CHR ''a'']" and symbolsSet = None and symbolCount = 0
      and maxSymbols = \<infinity> and noSeq = True and rs = id and k = 0
      and arr = "[Chr CHR ''a'', Undefined]" and i = 1 and n = 0 and noDup = True] sv pv
    by simp
  have f1: "getValidChar id 0 ''!#'' Null None ?S 0 ?Q False = (Inr (Chr CHR ''!''), 1)"
    by code_simp
  have f2: "fillRest id 1 1 1 ''!#'' False False ?S ?Q
         (arr_set (replicate (nat 12) Undefined) 0 (Chr CHR ''!'')) None 1
       = (Inr (Chr CHR ''!'' # Chr CHR ''#'' # replicate 10 Undefined, None, 2), 2)"
    by code_simp
  have f3: "getValidChar id 2 ''!#'' (Chr CHR ''#'') None ?S 2 ?Q False = (Inr Null, 2)"
    by code_simp
  have f4: "(case ?S of None \<Rightarrow> False | Some S \<Rightarrow> set_has S (Chr CHR ''!''))" by code_simp
  have f5: "arr_at (Chr CHR ''!'' # Chr CHR ''#'' # replicate 10 Undefined) 1 = Chr CHR ''#''"
    by code_simp
  have b: "generalPath id 0 12 ''!#'' ''!#'' False False ''!#'' = (Inl (CharacterExhaustionError 3), 2)
       \<and> generateSinglePassword id 0 12 ''!#'' ''!#'' False False False ''!#''
           = generalPath id 0 12 ''!#'' ''!#'' False False ''!#''"
    using getValidChar_failure_iff[where charset = "''!#''" and rs = id and k = 0 and len = 12
      and firstCharPool = "''!#''" and noDup = False and noSeq = False and symbols = "''!#''"
      and v = "Chr CHR ''!''" and ?k0.0 = 1 and m = 1
      and ?arr1.0 = "Chr CHR ''!'' # Chr CHR ''#'' # replicate 10 Undefined" and ?used1.0 = None
      and ?cnt1.0 = 2 and ?k1.0 = 2 and ?k2.0 = 2 and noSim = False and ?charset0.0 = "''!#''"
      and ?firstCharPool0.0 = "''!#''"] f1 f2 f3 f4 f5
    by simp
  have g1: "fst (getValidChar id 0 ''!'' Null None (symbolsSet2Of ''!'') 0
                   (enat (nat (ceilTenth 0))) False) = Inr Null"
    by code_simp
  have c: "fst (generalPath id 0 0 ''ab'' ''!'' False False ''!'') = Inl StartCharExhaustionError"
    using getValidChar_failure_iff[OF h', where rs = id and k = 0 and len = 0 and noDup = False
      and noSeq = False and symbols = "''!''" and restCharset = "''ab''"] g1
    by simp
  have e1: "fst (genOne id 0 ?x) = Inl (CharacterExhaustionError 3)" by code_simp
  have d: "generateLoop id 0 (Suc 0) ?x [] = ([], Some (CharacterExhaustionError 3))"
    using getValidChar_failure_iff[OF h, where rs = id and k = 0 and s = ?x
      and e = "CharacterExhaustionError 3" and n = 0 and acc = "[]"] e1
    by simp
  have e2: "preflight ?x = Inr ()" by code_simp
  have e3: "nat (amount ?x) = Suc 0" by code_simp
  have d2: "generatePasswords id ?x = ([], Some (CharacterExhaustionError 3))"
    using getValidChar_failure_iff[OF h, where rs = id and s = ?x and u = "()"
      and e = "CharacterExhaustionError 3" and n = 0] e1 e2 e3
    by simp
  from h sv a f1 f2 f3 b g1 c e1 d e2 d2 show ?thesis by simp
qed

text \<open>
  Claim C7. With \<^verbatim>\<open>noDuplicate\<close> set, every password that \<^verbatim>\<open>generatePasswords\<close> returns
  has pairwise distinct characters, on the general path and on the shuffle path.
\<close>

theorem noDuplicate_distinct:
  assumes "noDuplicate s"
  shows "\<forall>pw \<in> set (fst (generatePasswords rs s)). distinct pw"
proof (cases "preflight s")
  case (Inl e)
  then show ?thesis by (simp add: generatePasswords_def)
next
  case (Inr u)
  obtain pws e where gl: "generateLoop rs 0 (nat (amount s)) s [] = (pws, e)"
    by (cases "generateLoop rs 0 (nat (amount s)) s []")
  have "distinct pw" if "pw \<in> set pws" for pw
  proof -
    from generateLoop_mem[OF gl that] obtain k0 k1 where "genOne rs k0 s = (Inr pw, k1)"
      by auto
    from genOne_props(1)[OF Inr this] assms show ?thesis by simp
  qed
  with Inr gl show ?thesis by (simp add: generatePasswords_def)
qed

theorem noDuplicate_distinct_witness:
  "noDuplicate (onlyNumbers\<lparr>noDuplicate := True, amount := 2\<rparr>)
   \<and> fst (generatePasswords id (onlyNumbers\<lparr>noDuplicate := True, amount := 2\<rparr>))
       = [''0769815432'', ''9026748531'']
   \<and> distinct ''0769815432'' \<and> distinct ''9026748531''
   \<and> noDuplicate (onlyNumbers\<lparr>noDuplicate := True, noSequential := True, lengthS := 6\<rparr>)
   \<and> fst (generatePasswords id
            (onlyNumbers\<lparr>noDuplicate := True, noSequential := True, lengthS := 6\<rparr>))
       = [''036815'']
   \<and> distinct ''036815''"
proof -
  let ?s = "onlyNumbers\<lparr>noDuplicate := True, amount := 2\<rparr>"
  let ?t = "onlyNumbers\<lparr>noDuplicate := True, noSequential := True, lengthS := 6\<rparr>"
  have h1: "noDuplicate ?s" by code_simp
  have h2: "noDuplicate ?t" by code_simp
  have e1: "fst (generatePasswords id ?s) = [''0769815432'', ''9026748531'']" by code_simp
  have e2: "fst (generatePasswords id ?t) = [''036815'']" by code_simp
  from noDuplicate_distinct[OF h1, of id] noDuplicate_distinct[OF h2, of id] h1 h2
  show ?thesis unfolding e1 e2 by simp
qed

text \<open>
  Claim C8. With symbols enabled, every password that \<^verbatim>\<open>generatePasswords\<close> returns
  contains at most \<open>ceil (length / 10)\<close> characters of the symbol set, the first
  position included.
\<close>

theorem symbol_quota:
  assumes "includeSymbols s"
  shows "\<forall>pw \<in> set (fst (generatePasswords rs s)).
           int (symCount (symbolsSetOf s) pw) \<le> ceilTenth (lengthS s)"
proof (cases "preflight s")
  case (Inl e)
  then show ?thesis by (simp add: generatePasswords_def)
next
  case (Inr u)
  obtain pws e where gl: "generateLoop rs 0 (nat (amount s)) s [] = (pws, e)"
    by (cases "generateLoop rs 0 (nat (amount s)) s []")
  have "int (symCount (symbolsSetOf s) pw) \<le> ceilTenth (lengthS s)" if "pw \<in> set pws" for pw
  proof -
    from generateLoop_mem[OF gl that] obtain k0 k1 where "genOne rs k0 s = (Inr pw, k1)"
      by auto
    from genOne_props(2)[OF Inr this] assms show ?thesis by simp
  qed
  with Inr gl show ?thesis by (simp add: generatePasswords_def)
qed

theorem symbol_quota_witness:
  "includeSymbols (onlyNumbers\<lparr>includeSymbols := True, lengthS := 12\<rparr>)
   \<and> fst (generatePasswords ((*) 7) (onlyNumbers\<lparr>includeSymbols := True, lengthS := 12\<rparr>))
       = [''07+~85296307'']
   \<and> symbolsSetOf (onlyNumbers\<lparr>includeSymbols := True, lengthS := 12\<rparr>) = ''!#%*+-=?@^_~''
   \<and> ceilTenth (lengthS (onlyNumbers\<lparr>includeSymbols := True, lengthS := 12\<rparr>)) = 2
   \<and> int (symCount ''!#%*+-=?@^_~'' ''07+~85296307'') \<le> 2"
proof -
  let ?s = "onlyNumbers\<lparr>includeSymbols := True, lengthS := 12\<rparr>"
  have h: "includeSymbols ?s" by code_simp
  have e: "fst (generatePasswords ((*) 7) ?s) = [''07+~85296307'']" by code_simp
  have sy: "symbolsSetOf ?s = ''!#%*+-=?@^_~''" by code_simp
  have q: "ceilTenth (lengthS ?s) = 2" by code_simp
  from symbol_quota[OF h, of "(*) 7"] h
  show ?thesis unfolding e sy q by simp
qed



text \<open>
  Claim C10. With \<^verbatim>\<open>noSimilar\<close> set, \<^verbatim>\<open>generateSinglePassword\<close> filters both alphabets
  against \<open>iIl1oO0\<close> and raises the error for an empty alphabet if and only if the
  filtered alphabet is empty, and the error for an empty pool of first characters if
  and only if the filtered alphabet is not empty and the filtered pool is (so one of
  the two is raised if and only if one of the filtered alphabets is empty); without
  \<^verbatim>\<open>noSimilar\<close> it raises neither. The checks before the loop do not depend on
  \<^verbatim>\<open>noSimilar\<close>, and there are settings that pass them and fail with each of the two
  errors.
\<close>

theorem similar_filter_errors:
  "(fst (generateSinglePassword rs k len charset firstCharPool True noDup noSeq symbols)
       = Inl SimilarEmptyCharsetError
     \<longleftrightarrow> filterSimilarChars charset similarChars = [])
   \<and> (fst (generateSinglePassword rs k len charset firstCharPool True noDup noSeq symbols)
       = Inl SimilarEmptyFirstCharPoolError
     \<longleftrightarrow> filterSimilarChars charset similarChars \<noteq> []
         \<and> filterSimilarChars firstCharPool similarChars = [])
   \<and> fst (generateSinglePassword rs k len charset firstCharPool False noDup noSeq symbols)
       \<noteq> Inl SimilarEmptyCharsetError
   \<and> fst (generateSinglePassword rs k len charset firstCharPool False noDup noSeq symbols)
       \<noteq> Inl SimilarEmptyFirstCharPoolError
   \<and> (fst (generateSinglePassword rs k len charset firstCharPool True noDup noSeq symbols)
         \<in> {Inl SimilarEmptyCharsetError, Inl SimilarEmptyFirstCharPoolError}
     \<longleftrightarrow> filterSimilarChars charset similarChars = []
         \<or> filterSimilarChars firstCharPool similarChars = [])
   \<and> filterSimilarChars charset similarChars
       = filter (\<lambda>c. c \<notin> {CHR ''i'', CHR ''I'', CHR ''l'', CHR ''1'', CHR ''o'', CHR ''O'', CHR ''0''})
           charset
   \<and> preflight (s\<lparr>noSimilar := b\<rparr>) = preflight s
   \<and> preflight (onlyNumbers\<lparr>includeNumbers := False, includeSymbols := True,
                   customSymbols := ''0O'', noSimilar := True\<rparr>) = Inr ()
   \<and> generatePasswords rs (onlyNumbers\<lparr>includeNumbers := False, includeSymbols := True,
                   customSymbols := ''0O'', noSimilar := True\<rparr>)
       = ([], Some SimilarEmptyCharsetError)
   \<and> preflight (onlyNumbers\<lparr>includeSymbols := True, customSymbols := ''l'',
                   noStartNumber := True, noSimilar := True\<rparr>) = Inr ()
   \<and> generatePasswords rs (onlyNumbers\<lparr>includeSymbols := True, customSymbols := ''l'',
                   noStartNumber := True, noSimilar := True\<rparr>)
       = ([], Some SimilarEmptyFirstCharPoolError)"
proof -
  have fast: "fst (case generateNoDuplicatePassword rs k len cs fp of (pw, k') \<Rightarrow> (Inr pw, k')) \<noteq> Inl e"
    for cs fp and e :: error
    by (simp split: prod.splits)
  have gen: "fst (generalPath rs k len cs fp noDup noSeq symbols) \<noteq> Inl SimilarEmptyCharsetError
           \<and> fst (generalPath rs k len cs fp noDup noSeq symbols) \<noteq> Inl SimilarEmptyFirstCharPoolError"
    for cs fp
    using generalPath_err[of rs k len cs fp noDup noSeq symbols] by auto
  have a: "(fst (generateSinglePassword rs k len charset firstCharPool True noDup noSeq symbols)
       = Inl SimilarEmptyCharsetError
     \<longleftrightarrow> filterSimilarChars charset similarChars = [])"
    using fast gen by (simp add: generateSinglePassword_def Let_def)
  have b: "(fst (generateSinglePassword rs k len charset firstCharPool True noDup noSeq symbols)
       = Inl SimilarEmptyFirstCharPoolError
     \<longleftrightarrow> filterSimilarChars charset similarChars \<noteq> []
         \<and> filterSimilarChars firstCharPool similarChars = [])"
    using fast gen by (simp add: generateSinglePassword_def Let_def)
  have c: "fst (generateSinglePassword rs k len charset firstCharPool False noDup noSeq symbols)
       \<noteq> Inl SimilarEmptyCharsetError"
    using fast gen by (simp add: generateSinglePassword_def Let_def)
  have d: "fst (generateSinglePassword rs k len charset firstCharPool False noDup noSeq symbols)
       \<noteq> Inl SimilarEmptyFirstCharPoolError"
    using fast gen by (simp add: generateSinglePassword_def Let_def)
  have ab: "(fst (generateSinglePassword rs k len charset firstCharPool True noDup noSeq symbols)
         \<in> {Inl SimilarEmptyCharsetError, Inl SimilarEmptyFirstCharPoolError}
     \<longleftrightarrow> filterSimilarChars charset similarChars = []
         \<or> filterSimilarChars firstCharPool similarChars = [])"
    using a b by auto
  have e: "filterSimilarChars charset similarChars
       = filter (\<lambda>c. c \<notin> {CHR ''i'', CHR ''I'', CHR ''l'', CHR ''1'', CHR ''o'', CHR ''O'', CHR ''0''})
           charset"
    by (simp add: filterSimilarChars_def similarChars_def)
  have f: "preflight (s\<lparr>noSimilar := b\<rparr>) = preflight s"
    by (rule preflight_noSimilar)
  let ?x = "onlyNumbers\<lparr>includeNumbers := False, includeSymbols := True,
                   customSymbols := ''0O'', noSimilar := True\<rparr>"
  let ?y = "onlyNumbers\<lparr>includeSymbols := True, customSymbols := ''l'',
                   noStartNumber := True, noSimilar := True\<rparr>"
  have g: "preflight ?x = Inr ()" by code_simp
  have h: "generatePasswords rs ?x = ([], Some SimilarEmptyCharsetError)"
  proof -
    have am: "nat (amount ?x) = Suc 0" by code_simp
    have n: "noSimilar ?x" by code_simp
    have ec: "effCharset ?x = []" by code_simp
    from n ec have "fst (genOne rs 0 ?x) = Inl SimilarEmptyCharsetError"
      by (simp add: genOne_eq)
    from generatePasswords_first_fails[OF g am this] show ?thesis .
  qed
  have i: "preflight ?y = Inr ()" by code_simp
  have j: "generatePasswords rs ?y = ([], Some SimilarEmptyFirstCharPoolError)"
  proof -
    have am: "nat (amount ?y) = Suc 0" by code_simp
    have n: "noSimilar ?y" by code_simp
    have ec: "effCharset ?y \<noteq> []" by code_simp
    have ef: "effFirstCharPool ?y = []" by code_simp
    from n ec ef have "fst (genOne rs 0 ?y) = Inl SimilarEmptyFirstCharPoolError"
      by (simp add: genOne_eq)
    from generatePasswords_first_fails[OF i am this] show ?thesis .
  qed
  show ?thesis
    using a b c d ab e f g h i j by (intro conjI) assumption+
qed

theorem similar_filter_errors_witness:
  "filterSimilarChars ''0O'' similarChars = []
   \<and> fst (generateSinglePassword id 0 8 ''0O'' ''0O'' True False False ''0O'')
       = Inl SimilarEmptyCharsetError
   \<and> filterSimilarChars ''0Ol5'' similarChars \<noteq> []
   \<and> filterSimilarChars ''l'' similarChars = []
   \<and> fst (generateSinglePassword id 0 8 ''0Ol5'' ''l'' True False False ''l'')
       = Inl SimilarEmptyFirstCharPoolError"
proof -
  have a: "filterSimilarChars ''0O'' similarChars = []" by code_simp
  have b: "filterSimilarChars ''0Ol5'' similarChars \<noteq> []" by code_simp
  have c: "filterSimilarChars ''l'' similarChars = []" by code_simp
  from similar_filter_errors[of id 0 8 "''0O''" "''0O''" False False "''0O''"]
    similar_filter_errors[of id 0 8 "''0Ol5''" "''l''" False False "''l''"] a b c
  show ?thesis by simp
qed

end
